theory Spec2Isabelle
  imports Main "HOL-Library.Sublist"
begin

section \<open>Text primitives used by the migration runner\<close>

text \<open>
  The runner (\<^verbatim>\<open>fastmigrate_multi.py\<close>) works on Python \<^verbatim>\<open>str\<close> values.  A character is
  modelled as an Isabelle \<^typ>\<open>char\<close>, read as a code point below 256.  On that range
  \<^verbatim>\<open>\s\<close> of \<^verbatim>\<open>re\<close> and \<^verbatim>\<open>str.strip()\<close> agree on the same set of whitespace characters,
  \<^verbatim>\<open>\d\<close> is the ten ASCII digits, and \<^verbatim>\<open>str.lower()\<close> moves the upper-case letters by 32.
\<close>

definition newline :: char where
  "newline = char_of (10 :: nat)"

definition is_space :: "char \<Rightarrow> bool" where
  "is_space ch = ((of_char ch :: nat) \<in> {9, 10, 11, 12, 13, 28, 29, 30, 31, 32, 133, 160})"

definition is_digit :: "char \<Rightarrow> bool" where
  "is_digit ch = (48 \<le> (of_char ch :: nat) \<and> (of_char ch :: nat) \<le> 57)"

definition is_eq :: "char \<Rightarrow> bool" where
  "is_eq ch = (ch = CHR ''='')"

definition to_lower :: "char \<Rightarrow> char" where
  "to_lower ch =
     (let n = (of_char ch :: nat)
      in if (65 \<le> n \<and> n \<le> 90) \<or> (192 \<le> n \<and> n \<le> 222 \<and> n \<noteq> 215)
         then char_of (n + 32) else ch)"

definition lower :: "string \<Rightarrow> string" where
  "lower s = map to_lower s"

definition strip :: "string \<Rightarrow> string" where
  "strip s = rev (dropWhile is_space (rev (dropWhile is_space s)))"

text \<open>\<^verbatim>\<open>sub in s\<close> on strings: \<^verbatim>\<open>sub\<close> occurs at some position of \<^verbatim>\<open>s\<close>.\<close>

fun contains :: "string \<Rightarrow> string \<Rightarrow> bool" where
  "contains sub [] = (sub = [])"
| "contains sub (x # xs) = (take (length sub) (x # xs) = sub \<or> contains sub xs)"

definition int_of_digits :: "string \<Rightarrow> int" where
  "int_of_digits ds = foldl (\<lambda>acc d. 10 * acc + (int (of_char d) - 48)) 0 ds"

section \<open>MigrationFile\<close>

datatype error =
    ValueError
  | AttributeError
  | OperationalError
  | InterfaceError
  | SqlError
  | UndefinedTable
  | UniqueViolation
  | NumericValueOutOfRange
  | InsufficientPrivilege
  | InFailedSqlTransaction
  | MigrationFailed error

record migration =
  version :: int
  name :: string
  scope :: string
  up_sql :: string
  down_sql :: string

text \<open>
  \<^verbatim>\<open>_extract_version\<close>: \<^verbatim>\<open>re.match(r'^(\d+)_', filename)\<close>.  The greedy digit run must be
  followed by an underscore; no shorter run can be, since a digit is not an underscore.
\<close>

definition extract_version :: "string \<Rightarrow> error + int" where
  "extract_version fname =
     (let ds = takeWhile is_digit fname; rest = dropWhile is_digit fname
      in if ds \<noteq> [] \<and> take 1 rest = ''_'' then Inr (int_of_digits ds) else Inl ValueError)"

text \<open>\<^verbatim>\<open>Path.stem\<close>: the file name without its last suffix.\<close>

definition stem :: "string \<Rightarrow> string" where
  "stem fname =
     (let suffix = takeWhile (\<lambda>ch. ch \<noteq> CHR ''.'') (rev fname);
          i = length fname - length suffix - 1
      in if CHR ''.'' \<in> set fname \<and> 0 < i \<and> suffix \<noteq> [] then take i fname else fname)"

text \<open>
  The group of \<^verbatim>\<open>(.+)\.sql$\<close> on the text after the underscore: \<^verbatim>\<open>$\<close> stands at the end
  or before one final newline, and \<^verbatim>\<open>.\<close> does not match a newline.
\<close>

definition name_body :: "string \<Rightarrow> string option" where
  "name_body rest =
     (let t = (if rest \<noteq> [] \<and> last rest = newline then butlast rest else rest);
          n = length t - 4
      in if 4 < length t \<and> drop n t = ''.sql'' \<and> newline \<notin> set (take n t)
         then Some (take n t) else None)"

definition extract_name :: "string \<Rightarrow> string" where
  "extract_name fname =
     (let ds = takeWhile is_digit fname; rest = dropWhile is_digit fname
      in case (if ds \<noteq> [] \<and> take 1 rest = ''_'' then name_body (drop 1 rest) else None) of
           None \<Rightarrow> stem fname
         | Some n \<Rightarrow> n)"

definition extract_scope :: "string \<Rightarrow> string" where
  "extract_scope parent_dir =
     (if parent_dir \<in> set [''host'', ''tenant'', ''both''] then parent_dir else ''unknown'')"

subsection \<open>Splitting the file into its UP and DOWN sections\<close>

text \<open>
  Both patterns of \<^verbatim>\<open>_parse_sql\<close> begin with \<^verbatim>\<open>--\s*=+\s*WORD\s*=+\<close>, matched with
  \<^verbatim>\<open>re.IGNORECASE\<close>.  Each greedy run in it has to be taken whole: the character that
  follows a shorter run is still of the run's class and cannot start the next item.
  \<open>marker_head w s\<close> matches this prefix at the start of \<open>s\<close> (\<open>w\<close> in lower case) and
  returns the text after the last run of \<^verbatim>\<open>=\<close>.
\<close>

definition marker_head :: "string \<Rightarrow> string \<Rightarrow> string option" where
  "marker_head w s =
     (case s of
        c1 # c2 # r1 \<Rightarrow>
          if c1 = CHR ''-'' \<and> c2 = CHR ''-'' then
            (let r2 = dropWhile is_space r1; r3 = dropWhile is_eq r2
             in if takeWhile is_eq r2 = [] then None
                else (let r4 = dropWhile is_space r3
                      in if lower (take (length w) r4) \<noteq> w then None
                         else (let r5 = dropWhile is_space (drop (length w) r4)
                               in if takeWhile is_eq r5 = [] then None
                                  else Some (dropWhile is_eq r5))))
          else None
      | _ \<Rightarrow> None)"

text \<open>
  The marker line \<^verbatim>\<open>--\s*=+\s*WORD\s*=+\s*\n\<close>: the greedy \<^verbatim>\<open>\s*\<close> takes the whole
  whitespace run and gives back up to its last newline, so the group that follows starts
  right after the last newline of that run.
\<close>

definition marker_line :: "string \<Rightarrow> string \<Rightarrow> string option" where
  "marker_line w s =
     (case marker_head w s of
        None \<Rightarrow> None
      | Some r \<Rightarrow>
          (let ws = takeWhile is_space r
           in if newline \<in> set ws
              then Some (rev (takeWhile (\<lambda>ch. ch \<noteq> newline) (rev ws)) @ dropWhile is_space r)
              else None))"

text \<open>\<^verbatim>\<open>re.search\<close>: the leftmost position where the marker line matches.\<close>

fun search_marker :: "string \<Rightarrow> string \<Rightarrow> string option" where
  "search_marker w [] = marker_line w []"
| "search_marker w (x # xs) =
     (case marker_line w (x # xs) of
        Some r \<Rightarrow> Some r
      | None \<Rightarrow> search_marker w xs)"

text \<open>
  \<^verbatim>\<open>$\<close> without \<^verbatim>\<open>re.MULTILINE\<close> holds at the end of the text and before one final newline.
  The lazy group \<^verbatim>\<open>(.*?)\<close> under \<^verbatim>\<open>re.DOTALL\<close> grows one character at a time until what
  follows it matches.
\<close>

definition at_dollar :: "string \<Rightarrow> bool" where
  "at_dollar s = (s = [] \<or> s = [newline])"

fun lazy_until :: "(string \<Rightarrow> bool) \<Rightarrow> string \<Rightarrow> string" where
  "lazy_until stop [] = []"
| "lazy_until stop (x # xs) = (if stop (x # xs) then [] else x # lazy_until stop xs)"

definition up_match :: "string \<Rightarrow> string option" where
  "up_match content =
     (case search_marker ''up'' content of
        None \<Rightarrow> None
      | Some rest \<Rightarrow>
          Some (lazy_until (\<lambda>s. marker_head ''down'' s \<noteq> None \<or> at_dollar s) rest))"

definition down_match :: "string \<Rightarrow> string option" where
  "down_match content =
     (case search_marker ''down'' content of
        None \<Rightarrow> None
      | Some rest \<Rightarrow> Some (lazy_until at_dollar rest))"

definition parse_sql :: "string \<Rightarrow> string \<times> string" where
  "parse_sql content =
     (let up = (case up_match content of Some g \<Rightarrow> strip g | None \<Rightarrow> strip content);
          down = (case down_match content of Some g \<Rightarrow> strip g | None \<Rightarrow> [])
      in (up, down))"

text \<open>The constructor: a file in directory \<open>parent_dir\<close>, named \<open>fname\<close>, holding \<open>content\<close>.\<close>

definition MigrationFile :: "string \<Rightarrow> string \<Rightarrow> string \<Rightarrow> error + migration" where
  "MigrationFile parent_dir fname content =
     (case extract_version fname of
        Inl e \<Rightarrow> Inl e
      | Inr v \<Rightarrow>
          Inr \<lparr> version = v, name = extract_name fname, scope = extract_scope parent_dir,
                up_sql = fst (parse_sql content), down_sql = snd (parse_sql content) \<rparr>)"

section \<open>The databases and the driver\<close>

text \<open>
  One row of \<^verbatim>\<open>_migration_versions\<close>.  The columns \<^verbatim>\<open>applied_at\<close>, \<^verbatim>\<open>applied_by\<close> and
  \<^verbatim>\<open>execution_time_ms\<close> hold the clock and the operating-system user; no decision of the
  runner reads them and they are left out.  The primary key is (version, direction).
\<close>

record row =
  row_version :: int
  row_name :: string
  row_scope :: string
  row_direction :: string
  row_checksum :: string

text \<open>
  A database is the state that the migrations' SQL works on (of any type \<open>'s\<close>), the
  tracking table, \<open>None\<close> while the table has not been created, and whether the
  connecting role may read that table (a table that another role created may be closed
  to it).  A connection holds the committed state, the state seen inside the open
  transaction, whether it is closed, and whether its transaction is aborted: after a
  statement has failed the server refuses every further statement until the transaction
  is ended.
\<close>

record 's database =
  user_schema :: 's
  migration_versions :: "row list option"
  select_granted :: bool

record 's connection =
  committed :: "'s database"
  working :: "'s database"
  closed :: bool
  failed :: bool

text \<open>
  A migration's SQL body is sent to the server as it stands.  The engine reads it as a
  sequence of statements: a statement changes the user schema or raises, or it is a
  \<^verbatim>\<open>COMMIT\<close> or a \<^verbatim>\<open>ROLLBACK\<close> written in the body itself.
\<close>

datatype 's statement =
    Change "'s \<Rightarrow> 's option"
  | COMMIT
  | ROLLBACK

text \<open>
  The runner object with what it reads from its environment: the \<^verbatim>\<open>POSTGRES_DATABASE\<close>
  variable, the three scope directories under \<^verbatim>\<open>migrations_dir\<close> (each absent, or its
  \<^verbatim>\<open>*.sql\<close> files in sorted order as name and content), the statements that the database
  engine reads in a migration's SQL, the digest stored as checksum (the first 16 hex
  digits of SHA-256) and the tenant directory read from the host database.
\<close>

record 's runner =
  dry_run :: bool
  POSTGRES_DATABASE :: "string option"
  migrations_dir :: "string \<Rightarrow> (string \<times> string) list option"
  statements_of :: "string \<Rightarrow> 's statement list"
  digest :: "string \<Rightarrow> string"
  tenant_directory :: "(string option \<Rightarrow> 's database option) \<Rightarrow> (string \<times> string) list"

type_synonym 's world = "string option \<Rightarrow> 's database option"

subsection \<open>psycopg2 operations\<close>

text \<open>
  Each operation returns the connection and the exception it raised, if any.  Every
  operation on a closed connection raises \<open>InterfaceError\<close>, and every statement in an
  aborted transaction raises \<open>InFailedSqlTransaction\<close>.  A statement that fails changes
  nothing and aborts the transaction.

  \<open>run_body\<close> runs the statements of a body in turn.  A \<^verbatim>\<open>COMMIT\<close> in the body makes
  permanent what the transaction has done so far, and a \<^verbatim>\<open>ROLLBACK\<close> undoes it; either
  ends the transaction that the driver had opened, and what the body does after it is
  committed when the body ends without an error (the flag \<open>ended\<close>).  The statements
  of a body work on the user schema and leave the tracking table alone.
\<close>

fun run_body :: "'s statement list \<Rightarrow> bool \<Rightarrow> 's connection \<Rightarrow> 's connection \<times> error option" where
  "run_body [] ended c = ((if ended then c\<lparr>committed := working c\<rparr> else c), None)"
| "run_body (Change f # rest) ended c =
     (case f (user_schema (working c)) of
        None \<Rightarrow> (c\<lparr>failed := True\<rparr>, Some SqlError)
      | Some s \<Rightarrow> run_body rest ended (c\<lparr>working := (working c)\<lparr>user_schema := s\<rparr>\<rparr>))"
| "run_body (COMMIT # rest) ended c = run_body rest True (c\<lparr>committed := working c\<rparr>)"
| "run_body (ROLLBACK # rest) ended c = run_body rest True (c\<lparr>working := committed c\<rparr>)"

definition execute_sql :: "'s runner \<Rightarrow> 's connection \<Rightarrow> string \<Rightarrow> 's connection \<times> error option" where
  "execute_sql r c sql =
     (if closed c then (c, Some InterfaceError)
      else if failed c then (c, Some InFailedSqlTransaction)
      else run_body (statements_of r sql) False c)"

definition key_taken :: "row \<Rightarrow> row list \<Rightarrow> bool" where
  "key_taken x rows =
     (filter (\<lambda>y. row_version y = row_version x \<and> row_direction y = row_direction x) rows \<noteq> [])"

text \<open>The column \<^verbatim>\<open>version\<close> is a 32-bit \<^verbatim>\<open>INTEGER\<close>.\<close>

definition in_integer_range :: "int \<Rightarrow> bool" where
  "in_integer_range v = (- 2147483648 \<le> v \<and> v \<le> 2147483647)"

definition execute_insert :: "'s connection \<Rightarrow> row \<Rightarrow> 's connection \<times> error option" where
  "execute_insert c x =
     (if closed c then (c, Some InterfaceError)
      else if failed c then (c, Some InFailedSqlTransaction)
      else case migration_versions (working c) of
             None \<Rightarrow> (c\<lparr>failed := True\<rparr>, Some UndefinedTable)
           | Some rows \<Rightarrow>
               if \<not> in_integer_range (row_version x)
               then (c\<lparr>failed := True\<rparr>, Some NumericValueOutOfRange)
               else if key_taken x rows then (c\<lparr>failed := True\<rparr>, Some UniqueViolation)
               else (c\<lparr>working := (working c)\<lparr>migration_versions := Some (rows @ [x])\<rparr>\<rparr>, None))"

text \<open>
  \<^verbatim>\<open>conn.commit()\<close> on an aborted transaction raises nothing: the server answers the
  \<^verbatim>\<open>COMMIT\<close> with a rollback.
\<close>

definition commit :: "'s connection \<Rightarrow> 's connection \<times> error option" where
  "commit c =
     (if closed c then (c, Some InterfaceError)
      else if failed c then (c\<lparr>working := committed c, failed := False\<rparr>, None)
      else (c\<lparr>committed := working c\<rparr>, None))"

definition rollback :: "'s connection \<Rightarrow> 's connection \<times> error option" where
  "rollback c =
     (if closed c then (c, Some InterfaceError)
      else (c\<lparr>working := committed c, failed := False\<rparr>, None))"

definition close :: "'s connection \<Rightarrow> 's connection" where
  "close c = c\<lparr>working := committed c, closed := True, failed := False\<rparr>"

text \<open>
  \<^verbatim>\<open>_get_db_connection\<close>: \<^verbatim>\<open>database_name or os.getenv("POSTGRES_DATABASE")\<close> names the
  database; the key \<open>None\<close> stands for the driver's default database.
\<close>

definition target_database :: "'s runner \<Rightarrow> string option \<Rightarrow> string option" where
  "target_database r database_name =
     (case database_name of
        None \<Rightarrow> POSTGRES_DATABASE r
      | Some n \<Rightarrow> if n = [] then POSTGRES_DATABASE r else Some n)"

definition get_db_connection :: "'s runner \<Rightarrow> 's world \<Rightarrow> string option \<Rightarrow> error + 's connection" where
  "get_db_connection r w database_name =
     (case w (target_database r database_name) of
        None \<Rightarrow> Inl OperationalError
      | Some d \<Rightarrow> Inr \<lparr> committed = d, working = d, closed = False, failed = False \<rparr>)"

section \<open>MigrationRunner\<close>

text \<open>
  \<^verbatim>\<open>_ensure_migration_table\<close>: \<^verbatim>\<open>CREATE TABLE IF NOT EXISTS\<close>, then commit.  The role that
  creates the table owns it and may read it.
\<close>

definition ensure_migration_table :: "'s connection \<Rightarrow> 's connection \<times> error option" where
  "ensure_migration_table c =
     (if closed c then (c, Some InterfaceError)
      else if failed c then (c, Some InFailedSqlTransaction)
      else commit (case migration_versions (working c) of
                     None \<Rightarrow>
                       c\<lparr>working := (working c)\<lparr>migration_versions := Some [],
                                                select_granted := True\<rparr>\<rparr>
                   | Some rows \<Rightarrow> c))"

text \<open>
  \<^verbatim>\<open>SELECT MAX(version) FROM _migration_versions WHERE direction = 'up'\<close>.  The query raises
  when the table is missing or the role may not read it.
\<close>

definition up_versions :: "row list \<Rightarrow> int list" where
  "up_versions rows = map row_version (filter (\<lambda>x. row_direction x = ''up'') rows)"

definition select_max_version :: "'s connection \<Rightarrow> 's connection \<times> (error + int option)" where
  "select_max_version c =
     (if closed c then (c, Inl InterfaceError)
      else if failed c then (c, Inl InFailedSqlTransaction)
      else case migration_versions (working c) of
             None \<Rightarrow> (c\<lparr>failed := True\<rparr>, Inl UndefinedTable)
           | Some rows \<Rightarrow>
               if \<not> select_granted (working c)
               then (c\<lparr>failed := True\<rparr>, Inl InsufficientPrivilege)
               else (case up_versions rows of
                       [] \<Rightarrow> (c, Inr None)
                     | v # vs \<Rightarrow> (c, Inr (Some (fold max vs v)))))"

text \<open>
  \<^verbatim>\<open>get_current_version\<close>.  Its \<^verbatim>\<open>except Exception\<close> clause returns 0 for whatever was
  raised, and does not end the transaction.
\<close>

definition get_current_version :: "'s connection \<Rightarrow> 's connection \<times> int" where
  "get_current_version c =
     (case ensure_migration_table c of
        (c1, Some e) \<Rightarrow> (c1, 0)
      | (c1, None) \<Rightarrow>
          (case select_max_version c1 of
             (c2, Inl e) \<Rightarrow> (c2, 0)
           | (c2, Inr None) \<Rightarrow> (c2, 0)
           | (c2, Inr (Some v)) \<Rightarrow> (c2, v)))"

text \<open>
  \<^verbatim>\<open>discover_migrations\<close>: the files of the scope directories that exist, a file whose
  constructor raises being skipped, sorted by version (a stable sort, as Python's is).
\<close>

definition load_dir :: "'s runner \<Rightarrow> string \<Rightarrow> migration list" where
  "load_dir r scope_dir =
     (case migrations_dir r scope_dir of
        None \<Rightarrow> []
      | Some files \<Rightarrow>
          List.map_filter
            (\<lambda>(fname, content).
               case MigrationFile scope_dir fname content of Inl e \<Rightarrow> None | Inr m \<Rightarrow> Some m)
            files)"

definition discover_migrations :: "'s runner \<Rightarrow> string option \<Rightarrow> migration list" where
  "discover_migrations r scope_filter =
     (let scopes = (case scope_filter of
                      None \<Rightarrow> [''host'', ''tenant'', ''both'']
                    | Some s \<Rightarrow> if s = [] then [''host'', ''tenant'', ''both''] else [s])
      in sort_key version (concat (map (load_dir r) scopes)))"

text \<open>\<^verbatim>\<open>get_checksum\<close> and the row that \<^verbatim>\<open>apply_migration\<close> inserts.\<close>

definition get_checksum :: "'s runner \<Rightarrow> migration \<Rightarrow> string \<Rightarrow> string" where
  "get_checksum r m direction = digest r (if direction = ''up'' then up_sql m else down_sql m)"

definition tracking_row :: "'s runner \<Rightarrow> migration \<Rightarrow> string \<Rightarrow> row" where
  "tracking_row r m direction =
     \<lparr> row_version = version m, row_name = name m, row_scope = scope m,
       row_direction = direction, row_checksum = get_checksum r m direction \<rparr>"

text \<open>
  \<^verbatim>\<open>apply_migration\<close>.  \<open>on_failure\<close> is its \<^verbatim>\<open>except\<close> clause: roll back, then raise
  \<^verbatim>\<open>Exception("Migration failed: ...")\<close>; an exception of the rollback itself goes up
  instead.
\<close>

definition on_failure :: "'s connection \<Rightarrow> error \<Rightarrow> 's connection \<times> (error + bool)" where
  "on_failure c e =
     (case rollback c of
        (c', Some e') \<Rightarrow> (c', Inl e')
      | (c', None) \<Rightarrow> (c', Inl (MigrationFailed e)))"

definition apply_migration ::
  "'s runner \<Rightarrow> 's connection \<Rightarrow> migration \<Rightarrow> string \<Rightarrow> 's connection \<times> (error + bool)" where
  "apply_migration r c m direction =
     (let sql = (if direction = ''up'' then up_sql m else down_sql m)
      in if sql = [] then (c, Inl ValueError)
         else case execute_sql r c sql of
                (c1, Some e) \<Rightarrow> on_failure c1 e
              | (c1, None) \<Rightarrow>
                  (case execute_insert c1 (tracking_row r m direction) of
                     (c2, Some e) \<Rightarrow> on_failure c2 e
                   | (c2, None) \<Rightarrow>
                       (case commit c2 of
                          (c3, Some e) \<Rightarrow> on_failure c3 e
                        | (c3, None) \<Rightarrow> (c3, Inr True))))"

subsection \<open>Forward migration\<close>

text \<open>What the runner prints, one constructor per message that reports an outcome.\<close>

datatype event =
    UpToDate string int
  | MigrateHeader string int int
  | WouldApply int string
  | Applied int string
  | Failed int string error
  | DatabaseError string error
  | NothingToRollback string
  | AtOrBelowTarget string
  | RollbackHeader string int int
  | WouldRollback int string
  | RolledBack int string

text \<open>
  The pending list of \<^verbatim>\<open>migrate_database\<close>.  The cap is guarded by \<^verbatim>\<open>if target_version:\<close>,
  which is false for \<^verbatim>\<open>None\<close> and for \<^verbatim>\<open>0\<close>.
\<close>

definition pending_migrations :: "int \<Rightarrow> int option \<Rightarrow> migration list \<Rightarrow> migration list" where
  "pending_migrations current_version target_version migrations =
     (let pending = filter (\<lambda>m. version m > current_version) migrations
      in case target_version of
           None \<Rightarrow> pending
         | Some t \<Rightarrow> if t \<noteq> 0 then filter (\<lambda>m. version m \<le> t) pending else pending)"

text \<open>
  The two scope tests at the head of the loop body; \<open>Inr True\<close> is \<^verbatim>\<open>continue\<close>.
  \<^verbatim>\<open>db_name.lower()\<close> raises \<open>AttributeError\<close> when \<^verbatim>\<open>db_name\<close> is \<^verbatim>\<open>None\<close>.
\<close>

definition scope_skip :: "'s runner \<Rightarrow> string option \<Rightarrow> migration \<Rightarrow> error + bool" where
  "scope_skip r db_name m =
     (case (if scope m = ''host''
            then (case db_name of
                    None \<Rightarrow> Inl AttributeError
                  | Some n \<Rightarrow> Inr (contains ''tenant'' (lower n)))
            else Inr False) of
        Inl e \<Rightarrow> Inl e
      | Inr True \<Rightarrow> Inr True
      | Inr False \<Rightarrow> Inr (scope m = ''tenant'' \<and> db_name = POSTGRES_DATABASE r))"

text \<open>
  The loop over the pending migrations.  The result is \<open>Inr True\<close> when the loop ran to
  its end, \<open>Inr False\<close> when a migration failed (the connection is closed and
  \<^verbatim>\<open>migrate_database\<close> returns \<^verbatim>\<open>False\<close>), and \<open>Inl e\<close> when \<open>e\<close> was raised outside the
  inner \<^verbatim>\<open>try\<close>.
\<close>

fun migrate_pending ::
  "'s runner \<Rightarrow> string option \<Rightarrow> 's connection \<Rightarrow> migration list
     \<Rightarrow> 's connection \<times> (error + bool) \<times> event list" where
  "migrate_pending r db_name c [] = (c, Inr True, [])"
| "migrate_pending r db_name c (m # ms) =
     (case scope_skip r db_name m of
        Inl e \<Rightarrow> (c, Inl e, [])
      | Inr True \<Rightarrow> migrate_pending r db_name c ms
      | Inr False \<Rightarrow>
          if dry_run r then
            (case migrate_pending r db_name c ms of
               (c', res, evs) \<Rightarrow> (c', res, WouldApply (version m) (name m) # evs))
          else
            (case apply_migration r c m ''up'' of
               (c1, Inl e) \<Rightarrow> (close c1, Inr False, [Failed (version m) (name m) e])
             | (c1, Inr t) \<Rightarrow>
                 (case migrate_pending r db_name c1 ms of
                    (c', res, evs) \<Rightarrow> (c', res, Applied (version m) (name m) # evs))))"

text \<open>\<^verbatim>\<open>migrate_database\<close> from the point where the connection is open.\<close>

definition migrate_connection ::
  "'s runner \<Rightarrow> string option \<Rightarrow> string \<Rightarrow> int option \<Rightarrow> 's connection
     \<Rightarrow> 's connection \<times> bool \<times> event list" where
  "migrate_connection r db_name db_label target_version c0 =
     (case ensure_migration_table c0 of
        (c1, Some e) \<Rightarrow> (c1, False, [DatabaseError db_label e])
      | (c1, None) \<Rightarrow>
          (case get_current_version c1 of
             (c2, current_version) \<Rightarrow>
               (let pending = pending_migrations current_version target_version
                                (discover_migrations r None)
                in if pending = []
                   then (close c2, True, [UpToDate db_label current_version])
                   else (let header = MigrateHeader db_label current_version (version (last pending))
                         in case migrate_pending r db_name c2 pending of
                              (c3, Inl e, evs) \<Rightarrow>
                                (c3, False, header # evs @ [DatabaseError db_label e])
                            | (c3, Inr False, evs) \<Rightarrow> (c3, False, header # evs)
                            | (c3, Inr True, evs) \<Rightarrow> (close c3, True, header # evs)))))"

text \<open>
  \<^verbatim>\<open>migrate_database\<close>.  What was committed on the connection is the database's new
  state, also when the connection is left unclosed.
\<close>

definition migrate_database ::
  "'s runner \<Rightarrow> 's world \<Rightarrow> string option \<Rightarrow> string \<Rightarrow> int option
     \<Rightarrow> 's world \<times> bool \<times> event list" where
  "migrate_database r w db_name db_label target_version =
     (case get_db_connection r w db_name of
        Inl e \<Rightarrow> (w, False, [DatabaseError db_label e])
      | Inr c0 \<Rightarrow>
          (case migrate_connection r db_name db_label target_version c0 of
             (c, ok, evs) \<Rightarrow> (w(target_database r db_name \<mapsto> committed c), ok, evs)))"

text \<open>
  \<^verbatim>\<open>migrate_all\<close>: the host database, then the tenants that the directory lists.  The
  result keeps, for each database in turn, its label, what \<^verbatim>\<open>migrate_database\<close> returned
  and what it printed.
\<close>

type_synonym report = "string \<times> bool \<times> event list"

fun migrate_tenants ::
  "'s runner \<Rightarrow> 's world \<Rightarrow> (string \<times> string) list \<Rightarrow> int option \<Rightarrow> 's world \<times> report list" where
  "migrate_tenants r w [] target_version = (w, [])"
| "migrate_tenants r w ((tenant_id, db_name) # rest) target_version =
     (case migrate_database r w (Some db_name) (''TENANT '' @ tenant_id) target_version of
        (w1, ok, evs) \<Rightarrow>
          (case migrate_tenants r w1 rest target_version of
             (w2, reports) \<Rightarrow> (w2, (''TENANT '' @ tenant_id, ok, evs) # reports)))"

definition migrate_all :: "'s runner \<Rightarrow> 's world \<Rightarrow> int option \<Rightarrow> 's world \<times> report list" where
  "migrate_all r w target_version =
     (case migrate_database r w (POSTGRES_DATABASE r) ''HOST'' target_version of
        (w1, ok, evs) \<Rightarrow>
          (case migrate_tenants r w1 (tenant_directory r w1) target_version of
             (w2, reports) \<Rightarrow> (w2, (''HOST'', ok, evs) # reports)))"

subsection \<open>Rollback\<close>

definition rollback_target :: "int \<Rightarrow> int \<Rightarrow> int option \<Rightarrow> int" where
  "rollback_target current_version steps target_version =
     (case target_version of
        None \<Rightarrow> max 0 (current_version - steps)
      | Some t \<Rightarrow> t)"

definition to_rollback :: "int \<Rightarrow> int \<Rightarrow> migration list \<Rightarrow> migration list" where
  "to_rollback target current_version migrations =
     rev (filter (\<lambda>m. target < version m \<and> version m \<le> current_version) migrations)"

fun rollback_steps ::
  "'s runner \<Rightarrow> 's connection \<Rightarrow> migration list \<Rightarrow> 's connection \<times> bool \<times> event list" where
  "rollback_steps r c [] = (c, True, [])"
| "rollback_steps r c (m # ms) =
     (if dry_run r then
        (case rollback_steps r c ms of
           (c', ok, evs) \<Rightarrow> (c', ok, WouldRollback (version m) (name m) # evs))
      else
        (case apply_migration r c m ''down'' of
           (c1, Inl e) \<Rightarrow> (close c1, False, [Failed (version m) (name m) e])
         | (c1, Inr t) \<Rightarrow>
             (case rollback_steps r c1 ms of
                (c', ok, evs) \<Rightarrow> (c', ok, RolledBack (version m) (name m) # evs))))"

definition rollback_connection ::
  "'s runner \<Rightarrow> string \<Rightarrow> int \<Rightarrow> int option \<Rightarrow> 's connection
     \<Rightarrow> 's connection \<times> bool \<times> event list" where
  "rollback_connection r db_label steps target_version c0 =
     (case ensure_migration_table c0 of
        (c1, Some e) \<Rightarrow> (c1, False, [DatabaseError db_label e])
      | (c1, None) \<Rightarrow>
          (case get_current_version c1 of
             (c2, current_version) \<Rightarrow>
               if current_version = 0 then (close c2, True, [NothingToRollback db_label])
               else (let target = rollback_target current_version steps target_version
                     in if target \<ge> current_version
                        then (close c2, True, [AtOrBelowTarget db_label])
                        else (let header = RollbackHeader db_label current_version target
                              in case rollback_steps r c2
                                        (to_rollback target current_version
                                           (discover_migrations r None)) of
                                   (c3, False, evs) \<Rightarrow> (c3, False, header # evs)
                                 | (c3, True, evs) \<Rightarrow> (close c3, True, header # evs)))))"

definition rollback_database ::
  "'s runner \<Rightarrow> 's world \<Rightarrow> string option \<Rightarrow> string \<Rightarrow> int \<Rightarrow> int option
     \<Rightarrow> 's world \<times> bool \<times> event list" where
  "rollback_database r w db_name db_label steps target_version =
     (case get_db_connection r w db_name of
        Inl e \<Rightarrow> (w, False, [DatabaseError db_label e])
      | Inr c0 \<Rightarrow>
          (case rollback_connection r db_label steps target_version c0 of
             (c, ok, evs) \<Rightarrow> (w(target_database r db_name \<mapsto> committed c), ok, evs)))"

fun rollback_tenants ::
  "'s runner \<Rightarrow> 's world \<Rightarrow> (string \<times> string) list \<Rightarrow> int \<Rightarrow> int option
     \<Rightarrow> 's world \<times> report list" where
  "rollback_tenants r w [] steps target_version = (w, [])"
| "rollback_tenants r w ((tenant_id, db_name) # rest) steps target_version =
     (case rollback_database r w (Some db_name) (''TENANT '' @ tenant_id) steps target_version of
        (w1, ok, evs) \<Rightarrow>
          (case rollback_tenants r w1 rest steps target_version of
             (w2, reports) \<Rightarrow> (w2, (''TENANT '' @ tenant_id, ok, evs) # reports)))"

definition rollback_all ::
  "'s runner \<Rightarrow> 's world \<Rightarrow> int \<Rightarrow> int option \<Rightarrow> 's world \<times> report list" where
  "rollback_all r w steps target_version =
     (case rollback_database r w (POSTGRES_DATABASE r) ''HOST'' steps target_version of
        (w1, ok, evs) \<Rightarrow>
          (case rollback_tenants r w1 (tenant_directory r w1) steps target_version of
             (w2, reports) \<Rightarrow> (w2, (''HOST'', ok, evs) # reports)))"

section \<open>Vocabulary for the statements\<close>

text \<open>The SQL body of a migration for a direction, as \<^verbatim>\<open>apply_migration\<close> and \<^verbatim>\<open>get_checksum\<close> pick it.\<close>

definition direction_sql :: "migration \<Rightarrow> string \<Rightarrow> string" where
  "direction_sql m direction = (if direction = ''up'' then up_sql m else down_sql m)"

text \<open>
  A body that leaves the transaction to the driver: it has no \<^verbatim>\<open>COMMIT\<close> and no
  \<^verbatim>\<open>ROLLBACK\<close> of its own.  \<open>run_changes\<close> is what such a body does to the user schema,
  \<open>None\<close> when one of its statements raises.
\<close>

fun plain :: "'s statement list \<Rightarrow> bool" where
  "plain [] = True"
| "plain (Change f # rest) = plain rest"
| "plain (COMMIT # rest) = False"
| "plain (ROLLBACK # rest) = False"

fun run_changes :: "'s statement list \<Rightarrow> 's \<Rightarrow> 's option" where
  "run_changes [] s = Some s"
| "run_changes (Change f # rest) s = (case f s of None \<Rightarrow> None | Some s' \<Rightarrow> run_changes rest s')"
| "run_changes (COMMIT # rest) s = run_changes rest s"
| "run_changes (ROLLBACK # rest) s = run_changes rest s"

text \<open>A connection as \<^verbatim>\<open>psycopg2.connect\<close> returns it: open, with no transaction under way.\<close>

definition connection_to :: "'s database \<Rightarrow> 's connection" where
  "connection_to d = \<lparr> committed = d, working = d, closed = False, failed = False \<rparr>"

text \<open>
  The migrations that a run reports on, in the order of the report: one entry for every
  message about a migration, applied, rolled back, failed or previewed.
\<close>

definition migration_key :: "migration \<Rightarrow> int \<times> string" where
  "migration_key m = (version m, name m)"

fun processed :: "event list \<Rightarrow> (int \<times> string) list" where
  "processed [] = []"
| "processed (WouldApply v n # evs) = (v, n) # processed evs"
| "processed (Applied v n # evs) = (v, n) # processed evs"
| "processed (Failed v n e # evs) = (v, n) # processed evs"
| "processed (WouldRollback v n # evs) = (v, n) # processed evs"
| "processed (RolledBack v n # evs) = (v, n) # processed evs"
| "processed (ev # evs) = processed evs"

text \<open>The statements that touched the database: applied, rolled back or failed.\<close>

fun attempts :: "event list \<Rightarrow> (int \<times> string) list" where
  "attempts [] = []"
| "attempts (Applied v n # evs) = (v, n) # attempts evs"
| "attempts (Failed v n e # evs) = (v, n) # attempts evs"
| "attempts (RolledBack v n # evs) = (v, n) # attempts evs"
| "attempts (ev # evs) = attempts evs"

text \<open>
  A database once \<^verbatim>\<open>_ensure_migration_table\<close> has run on it, the version that
  \<^verbatim>\<open>get_current_version\<close> reads from it (0 when the query raises), and the connection as
  it is when \<^verbatim>\<open>get_current_version\<close> has returned: its transaction is aborted when the
  query raised.
\<close>

definition ensured :: "'s database \<Rightarrow> 's database" where
  "ensured d =
     (case migration_versions d of
        None \<Rightarrow> d\<lparr>migration_versions := Some [], select_granted := True\<rparr>
      | Some rows \<Rightarrow> d)"

definition version_of :: "'s database \<Rightarrow> int" where
  "version_of d =
     (case migration_versions d of
        None \<Rightarrow> 0
      | Some rows \<Rightarrow>
          if \<not> select_granted d \<or> up_versions rows = [] then 0
          else Max (set (up_versions rows)))"

definition versioned_connection :: "'s database \<Rightarrow> 's connection" where
  "versioned_connection d = (connection_to (ensured d))\<lparr>failed := \<not> select_granted (ensured d)\<rparr>"

text \<open>
  The rows of the tracking table, and a connection outside any transaction on a database
  that has the table and lets it be read.
\<close>

definition table_rows :: "'s database \<Rightarrow> row list" where
  "table_rows d = (case migration_versions d of None \<Rightarrow> [] | Some rows \<Rightarrow> rows)"

definition settled :: "'s connection \<Rightarrow> bool" where
  "settled c =
     (\<not> closed c \<and> \<not> failed c \<and> working c = committed c \<and>
      migration_versions (committed c) \<noteq> None \<and> select_granted (committed c))"

text \<open>
  The name under which a tenant is reported, the database that its run connects to, and
  the world after the runs on a list of tenants.
\<close>

definition tenant_label :: "string \<times> string \<Rightarrow> string" where
  "tenant_label t = ''TENANT '' @ fst t"

definition tenant_key :: "'s runner \<Rightarrow> string \<times> string \<Rightarrow> string option" where
  "tenant_key r t = target_database r (Some (snd t))"

definition after_tenants ::
  "'s runner \<Rightarrow> int option \<Rightarrow> 's world \<Rightarrow> (string \<times> string) list \<Rightarrow> 's world" where
  "after_tenants r target_version w ts =
     foldl (\<lambda>w' t. fst (migrate_database r w' (Some (snd t)) (tenant_label t) target_version)) w ts"

section \<open>Small installations, used to run the definitions\<close>

text \<open>
  Two files, \<^verbatim>\<open>host/001_init.sql\<close> without markers and \<^verbatim>\<open>tenant/002_add_col.sql\<close> with
  both sections.  The engine appends each statement it runs to a journal; it refuses
  the statement \<^verbatim>\<open>BAD\<close> and a statement that the journal already holds, as a table cannot
  be created twice, and it reads \<open>leak_sql\<close> as three statements.
\<close>

definition add_col_text :: string where
  "add_col_text = ''-- === UP ==='' @ [newline] @ ''ALTER TABLE u ADD c int;'' @ [newline]
     @ ''-- === DOWN ==='' @ [newline] @ ''ALTER TABLE u DROP c;'' @ [newline]"

definition demo_dirs :: "string \<Rightarrow> (string \<times> string) list option" where
  "demo_dirs d =
     (if d = ''host'' then Some [(''001_init.sql'', ''CREATE TABLE t;'')]
      else if d = ''tenant'' then Some [(''002_add_col.sql'', add_col_text)]
      else None)"

definition journal_entry :: "string \<Rightarrow> string list \<Rightarrow> string list option" where
  "journal_entry sql s = (if sql = ''BAD'' \<or> sql \<in> set s then None else Some (s @ [sql]))"

definition leak_sql :: string where
  "leak_sql = ''CREATE TABLE leak (id int); COMMIT; CREATE TABLE leak (id int);''"

definition journal :: "string \<Rightarrow> string list statement list" where
  "journal sql =
     (if sql = leak_sql
      then [Change (journal_entry ''CREATE TABLE leak (id int);''), COMMIT,
            Change (journal_entry ''CREATE TABLE leak (id int);'')]
      else [Change (journal_entry sql)])"

definition demo_runner :: "string list runner" where
  "demo_runner =
     \<lparr> dry_run = False, POSTGRES_DATABASE = Some ''app'', migrations_dir = demo_dirs,
       statements_of = journal, digest = take 16,
       tenant_directory = (\<lambda>w. [(''7'', ''tenant_acme'')]) \<rparr>"

definition fresh :: "string list database" where
  "fresh = \<lparr> user_schema = [], migration_versions = None, select_granted = True \<rparr>"

definition empty_db :: "string list database" where
  "empty_db = \<lparr> user_schema = [], migration_versions = Some [], select_granted = True \<rparr>"

definition demo_world :: "string list world" where
  "demo_world = (\<lambda>k. if k = Some ''app'' \<or> k = Some ''tenant_acme'' then Some fresh else None)"

definition init_migration :: migration where
  "init_migration =
     \<lparr> version = 1, name = ''init'', scope = ''host'', up_sql = ''CREATE TABLE t;'', down_sql = [] \<rparr>"

definition add_col_migration :: migration where
  "add_col_migration =
     \<lparr> version = 2, name = ''add_col'', scope = ''tenant'',
       up_sql = ''ALTER TABLE u ADD c int;'', down_sql = ''ALTER TABLE u DROP c;'' \<rparr>"

text \<open>
  A migration whose body commits by itself and then fails, rows of a tracking table, a
  table that the role may not read, a file with a DOWN marker only, and the host database
  after its first migration.
\<close>

definition leak_migration :: migration where
  "leak_migration =
     \<lparr> version = 5, name = ''leak'', scope = ''both'', up_sql = leak_sql, down_sql = [] \<rparr>"

definition up_row :: "int \<Rightarrow> row" where
  "up_row v = \<lparr> row_version = v, row_name = ''m'', row_scope = ''both'', row_direction = ''up'',
               row_checksum = [] \<rparr>"

definition down_row :: "int \<Rightarrow> row" where
  "down_row v = \<lparr> row_version = v, row_name = ''m'', row_scope = ''both'', row_direction = ''down'',
                 row_checksum = [] \<rparr>"

definition some_rows :: "string list database" where
  "some_rows =
     \<lparr> user_schema = [], migration_versions = Some [up_row 1, up_row 3, down_row 7, up_row 2],
       select_granted = True \<rparr>"

definition unreadable :: "string list database" where
  "unreadable = some_rows\<lparr> select_granted := False \<rparr>"

definition down_only_text :: string where
  "down_only_text = ''-- === DOWN ==='' @ [newline] @ ''DROP TABLE t;''"

definition host_at_1 :: "string list world" where
  "host_at_1 = (\<lambda>k. if k = Some ''app''
       then Some \<lparr> user_schema = [''CREATE TABLE t;''],
                   migration_versions = Some [tracking_row demo_runner init_migration ''up''],
                   select_granted = True \<rparr>
       else None)"

text \<open>
  Further installations: a host whose name contains the word tenant and a tenant whose
  name does not, a migration numbered 0, and a third migration for both kinds of
  database with the states of a tenant and of the host after their forward runs.
\<close>

definition multitenant_runner :: "string list runner" where
  "multitenant_runner = demo_runner\<lparr> POSTGRES_DATABASE := Some ''multitenant'' \<rparr>"

definition other_world :: "string list world" where
  "other_world = (\<lambda>k. if k = Some ''multitenant'' \<or> k = Some ''acme'' then Some fresh else None)"

definition base_text :: string where
  "base_text = ''-- === UP ==='' @ [newline] @ ''CREATE TABLE b;'' @ [newline]
     @ ''-- === DOWN ==='' @ [newline] @ ''DROP TABLE b;'' @ [newline]"

definition base_migration :: migration where
  "base_migration =
     \<lparr> version = 0, name = ''base'', scope = ''both'', up_sql = ''CREATE TABLE b;'',
       down_sql = ''DROP TABLE b;'' \<rparr>"

definition zero_runner :: "string list runner" where
  "zero_runner =
     demo_runner\<lparr> migrations_dir := (\<lambda>d. if d = ''both'' then Some [(''000_base.sql'', base_text)]
                                            else None) \<rparr>"

definition index_text :: string where
  "index_text = ''-- === UP ==='' @ [newline] @ ''CREATE INDEX i;'' @ [newline]
     @ ''-- === DOWN ==='' @ [newline] @ ''DROP INDEX i;'' @ [newline]"

definition index_migration :: migration where
  "index_migration =
     \<lparr> version = 3, name = ''index'', scope = ''both'', up_sql = ''CREATE INDEX i;'',
       down_sql = ''DROP INDEX i;'' \<rparr>"

definition mixed_runner :: "string list runner" where
  "mixed_runner =
     demo_runner\<lparr> migrations_dir := (\<lambda>d. if d = ''both'' then Some [(''003_index.sql'', index_text)]
                                            else demo_dirs d) \<rparr>"

definition tenant_at_3 :: "string list world" where
  "tenant_at_3 =
     (\<lambda>k. if k = Some ''tenant_acme''
          then Some \<lparr> user_schema = [''ALTER TABLE u ADD c int;'', ''CREATE INDEX i;''],
                      migration_versions =
                        Some [tracking_row mixed_runner add_col_migration ''up'',
                              tracking_row mixed_runner index_migration ''up''],
                      select_granted = True \<rparr>
          else None)"

definition host_at_3 :: "string list world" where
  "host_at_3 =
     (\<lambda>k. if k = Some ''app''
          then Some \<lparr> user_schema = [''CREATE TABLE t;'', ''CREATE INDEX i;''],
                      migration_versions =
                        Some [tracking_row mixed_runner init_migration ''up'',
                              tracking_row mixed_runner index_migration ''up''],
                      select_granted = True \<rparr>
          else None)"

text \<open>
  An installation whose first host migration fails, with two tenants; the first tenant
  already holds the table that the tenant migration creates.
\<close>

definition failing_dirs :: "string \<Rightarrow> (string \<times> string) list option" where
  "failing_dirs d =
     (if d = ''host'' then Some [(''001_bad.sql'', ''BAD''), (''002_more.sql'', ''CREATE TABLE m;'')]
      else if d = ''tenant'' then Some [(''003_ok.sql'', ''CREATE TABLE k;'')]
      else None)"

definition failing_runner :: "string list runner" where
  "failing_runner =
     demo_runner\<lparr> migrations_dir := failing_dirs,
                  tenant_directory := (\<lambda>w. [(''7'', ''tenant_acme''), (''8'', ''tenant_beta'')]) \<rparr>"

definition two_tenants :: "string list world" where
  "two_tenants =
     (\<lambda>k. if k = Some ''app'' \<or> k = Some ''tenant_beta'' then Some fresh
          else if k = Some ''tenant_acme'' then Some (fresh\<lparr> user_schema := [''CREATE TABLE k;''] \<rparr>)
          else None)"

text \<open>
  An installation whose second migration has no DOWN section, and the host database with
  both migrations applied.
\<close>

definition first_text :: string where
  "first_text = ''-- === UP ==='' @ [newline] @ ''CREATE TABLE f;'' @ [newline]
     @ ''-- === DOWN ==='' @ [newline] @ ''DROP TABLE f;'' @ [newline]"

definition first_migration :: migration where
  "first_migration =
     \<lparr> version = 1, name = ''first'', scope = ''both'', up_sql = ''CREATE TABLE f;'',
       down_sql = ''DROP TABLE f;'' \<rparr>"

definition second_migration :: migration where
  "second_migration =
     \<lparr> version = 2, name = ''second'', scope = ''both'', up_sql = ''CREATE TABLE g;'',
       down_sql = [] \<rparr>"

definition stack_runner :: "string list runner" where
  "stack_runner =
     demo_runner\<lparr> migrations_dir :=
       (\<lambda>d. if d = ''both'' then Some [(''001_first.sql'', first_text),
                                       (''002_second.sql'', ''CREATE TABLE g;'')]
            else None) \<rparr>"

definition host_at_2 :: "string list world" where
  "host_at_2 =
     (\<lambda>k. if k = Some ''app''
          then Some \<lparr> user_schema = [''CREATE TABLE f;'', ''CREATE TABLE g;''],
                      migration_versions =
                        Some [tracking_row stack_runner first_migration ''up'',
                              tracking_row stack_runner second_migration ''up''],
                      select_granted = True \<rparr>
          else None)"

section \<open>Properties\<close>

subsection \<open>The driver and single steps\<close>

lemma run_body_plain:
  "plain stmts \<Longrightarrow> run_body stmts False c = (c1, e) \<Longrightarrow>
     committed c1 = committed c \<and> closed c1 = closed c \<and>
     (case e of
        None \<Rightarrow> (\<exists>s. run_changes stmts (user_schema (working c)) = Some s \<and>
                     c1 = c\<lparr>working := (working c)\<lparr>user_schema := s\<rparr>\<rparr>)
      | Some x \<Rightarrow> failed c1)"
proof (induction stmts arbitrary: c)
  case Nil
  then show ?case by auto
next
  case (Cons st stmts)
  show ?case
  proof (cases st)
    case (Change f)
    show ?thesis
    proof (cases "f (user_schema (working c))")
      case None
      then show ?thesis using Cons.prems Change by auto
    next
      case (Some s')
      let ?c = "c\<lparr>working := (working c)\<lparr>user_schema := s'\<rparr>\<rparr>"
      have p: "plain stmts" and r: "run_body stmts False ?c = (c1, e)"
        using Cons.prems Change Some by simp_all
      from Cons.IH[OF p r] show ?thesis using Change Some
        by (auto split: option.splits)
    qed
  next
    case COMMIT
    then show ?thesis using Cons.prems by simp
  next
    case ROLLBACK
    then show ?thesis using Cons.prems by simp
  qed
qed

lemma run_body_tables:
  "run_body stmts ended c = (c1, e) \<Longrightarrow>
   migration_versions (working c) = migration_versions (committed c) \<Longrightarrow>
   select_granted (working c) = select_granted (committed c) \<Longrightarrow>
     closed c1 = closed c \<and>
     migration_versions (working c1) = migration_versions (working c) \<and>
     migration_versions (committed c1) = migration_versions (working c) \<and>
     select_granted (working c1) = select_granted (working c) \<and>
     select_granted (committed c1) = select_granted (working c) \<and>
     (e = None \<longrightarrow> failed c1 = failed c)"
proof (induction stmts ended c rule: run_body.induct)
  case (1 ended c)
  then show ?case by (auto split: if_splits)
next
  case (2 f rest ended c)
  show ?case
  proof (cases "f (user_schema (working c))")
    case None
    then show ?thesis using "2.prems" by auto
  next
    case (Some s)
    from "2.IH"[OF Some] "2.prems" Some show ?thesis by simp
  qed
next
  case (3 rest ended c)
  then show ?case by simp
next
  case (4 rest ended c)
  then show ?case by simp
qed

lemma apply_migration_plain:
  assumes "apply_migration r c m direction = (c', res)"
    and "plain (statements_of r (direction_sql m direction))"
  shows "(case res of
        Inr t \<Rightarrow>
          \<not> closed c \<and> \<not> failed c \<and>
          (\<exists>s rows. run_changes (statements_of r (direction_sql m direction))
                        (user_schema (working c)) = Some s \<and>
             migration_versions (working c) = Some rows \<and>
             committed c' = (working c)\<lparr> user_schema := s,
                 migration_versions := Some (rows @ [tracking_row r m direction]) \<rparr> \<and>
             working c' = committed c' \<and> \<not> closed c' \<and> \<not> failed c')
      | Inl e \<Rightarrow>
          committed c' = committed c \<and> closed c' = closed c \<and>
          (if direction_sql m direction = [] \<or> closed c then working c' = working c
           else working c' = committed c \<and> \<not> failed c'))"
proof (cases "direction_sql m direction = []")
  case True
  then show ?thesis using assms(1) by (auto simp: apply_migration_def direction_sql_def)
next
  case False
  let ?sql = "direction_sql m direction"
  have am: "apply_migration r c m direction =
     (case execute_sql r c ?sql of
                (c1, Some e) \<Rightarrow> on_failure c1 e
              | (c1, None) \<Rightarrow>
                  (case execute_insert c1 (tracking_row r m direction) of
                     (c2, Some e) \<Rightarrow> on_failure c2 e
                   | (c2, None) \<Rightarrow>
                       (case commit c2 of
                          (c3, Some e) \<Rightarrow> on_failure c3 e
                        | (c3, None) \<Rightarrow> (c3, Inr True))))"
    using False by (simp add: apply_migration_def direction_sql_def)
  show ?thesis
  proof (cases "closed c \<or> failed c")
    case True
    then show ?thesis using assms(1) False am
      by (auto simp: execute_sql_def on_failure_def rollback_def)
  next
    case open_c: False
    obtain c1 e where b: "run_body (statements_of r ?sql) False c = (c1, e)"
      by (cases "run_body (statements_of r ?sql) False c")
    note pb = run_body_plain[OF assms(2) b]
    have ex: "execute_sql r c ?sql = (c1, e)" using open_c b by (simp add: execute_sql_def)
    show ?thesis
    proof (cases e)
      case (Some x)
      then show ?thesis using assms(1) False am ex pb open_c
        by (auto simp: on_failure_def rollback_def)
    next
      case None
      then obtain s where s: "run_changes (statements_of r ?sql) (user_schema (working c)) = Some s"
        "c1 = c\<lparr>working := (working c)\<lparr>user_schema := s\<rparr>\<rparr>"
        using pb by auto
      show ?thesis using assms(1) False am ex None s open_c
        by (auto simp: execute_insert_def commit_def on_failure_def rollback_def
            split: option.splits if_splits)
    qed
  qed
qed

lemma fold_max_Max: "fold max vs (v::int) = Max (set (v # vs))"
  by (rule Max.set_eq_fold[symmetric])

lemma up_versions_Nil [simp]: "up_versions [] = []"
  by (simp add: up_versions_def)

lemma get_current_version_eq:
  "get_current_version c =
     (if closed c \<or> failed c then (c, 0)
      else (case migration_versions (working c) of
              None \<Rightarrow>
                (c\<lparr>working := (working c)\<lparr>migration_versions := Some [], select_granted := True\<rparr>,
                   committed := (working c)\<lparr>migration_versions := Some [], select_granted := True\<rparr>\<rparr>,
                 0)
            | Some rows \<Rightarrow>
                if \<not> select_granted (working c)
                then (c\<lparr>committed := working c, failed := True\<rparr>, 0)
                else (c\<lparr>committed := working c\<rparr>,
                      if up_versions rows = [] then 0 else Max (set (up_versions rows)))))"
  by (auto simp: get_current_version_def ensure_migration_table_def commit_def
      select_max_version_def fold_max_Max
      simp del: set_simps split: option.splits list.splits sum.splits)

text \<open>
  C1, as the code has it.  For a migration whose SQL body has no \<^verbatim>\<open>COMMIT\<close> and no
  \<^verbatim>\<open>ROLLBACK\<close> of its own, \<^verbatim>\<open>apply_migration\<close> runs the body and the insertion of the
  tracking row as one transaction.  When it returns, both are committed together: the
  committed state is the result of the body on the state at entry with the one new row
  appended.  When it raises, the committed state is the one at entry, and (on an open
  connection, once the \<^verbatim>\<open>try\<close> block was entered) the transaction was rolled back to it
  before the error went up.  No other outcome exists.
\<close>

theorem apply_migration_atomic:
  assumes "apply_migration r c m direction = (c', res)"
    and "plain (statements_of r (direction_sql m direction))"
  shows "(\<forall>t. res = Inr t \<longrightarrow>
            (\<exists>s rows. run_changes (statements_of r (direction_sql m direction))
                          (user_schema (working c)) = Some s \<and>
               migration_versions (working c) = Some rows \<and>
               committed c' = (working c)\<lparr> user_schema := s,
                   migration_versions := Some (rows @ [tracking_row r m direction]) \<rparr> \<and>
               working c' = committed c')) \<and>
         (\<forall>e. res = Inl e \<longrightarrow>
            committed c' = committed c \<and>
            (\<not> closed c \<and> direction_sql m direction \<noteq> [] \<longrightarrow> working c' = committed c))"
  using apply_migration_plain[OF assms] by (cases res) auto

text \<open>
  A body that commits by itself and fails afterwards: the first statement of
  \<open>leak_sql\<close> stays committed, the error goes up, and the tracking table has no row
  for the migration.
\<close>

theorem commit_inside_body_counterexample:
  "snd (apply_migration demo_runner (connection_to empty_db) leak_migration ''up'')
     = Inl (MigrationFailed SqlError)
   \<and> committed (fst (apply_migration demo_runner (connection_to empty_db) leak_migration ''up''))
     = \<lparr> user_schema = [''CREATE TABLE leak (id int);''], migration_versions = Some [],
         select_granted = True \<rparr>
   \<and> committed (connection_to empty_db)
     = \<lparr> user_schema = [], migration_versions = Some [], select_granted = True \<rparr>"
  by code_simp

theorem apply_migration_atomic_witness:
  "apply_migration demo_runner (connection_to empty_db) init_migration ''up''
     = (connection_to \<lparr> user_schema = [''CREATE TABLE t;''],
          migration_versions = Some [tracking_row demo_runner init_migration ''up''],
          select_granted = True \<rparr>, Inr True)
   \<and> apply_migration demo_runner (connection_to fresh) init_migration ''up''
     = (connection_to fresh, Inl (MigrationFailed UndefinedTable))"
proof -
  have p: "plain (statements_of demo_runner (direction_sql init_migration ''up''))"
    by code_simp
  have a: "apply_migration demo_runner (connection_to empty_db) init_migration ''up''
     = (connection_to \<lparr> user_schema = [''CREATE TABLE t;''],
          migration_versions = Some [tracking_row demo_runner init_migration ''up''],
          select_granted = True \<rparr>, Inr True)"
    by code_simp
  have b: "apply_migration demo_runner (connection_to fresh) init_migration ''up''
     = (connection_to fresh, Inl (MigrationFailed UndefinedTable))"
    by code_simp
  from apply_migration_atomic[OF a p] apply_migration_atomic[OF b p] a b show ?thesis
    by simp
qed

text \<open>
  C9.  \<^verbatim>\<open>get_current_version\<close> returns the highest version with a recorded \<^verbatim>\<open>up\<close> row.
  It returns 0 when the table holds no such row, in particular on an empty or freshly
  created table.  It returns 0, raising nothing, whatever the version query raises and
  whatever \<^verbatim>\<open>_ensure_migration_table\<close> raises: the query raises on a table that the role
  may not read, and either raises on a closed connection and in an aborted transaction.
\<close>

theorem get_current_version_spec:
  "(\<not> closed c \<and> \<not> failed c \<and> migration_versions (working c) = Some rows \<and>
    select_granted (working c) \<and> up_versions rows \<noteq> []
      \<longrightarrow> snd (get_current_version c) = Max (set (up_versions rows))) \<and>
   (\<not> closed c \<and> \<not> failed c \<and> migration_versions (working c) = Some rows \<and>
    select_granted (working c) \<and> up_versions rows = []
      \<longrightarrow> snd (get_current_version c) = 0) \<and>
   (\<not> closed c \<and> \<not> failed c \<and> migration_versions (working c) = None
      \<longrightarrow> snd (get_current_version c) = 0) \<and>
   (\<forall>c1 c2 e. ensure_migration_table c = (c1, None) \<and> select_max_version c1 = (c2, Inl e)
      \<longrightarrow> get_current_version c = (c2, 0)) \<and>
   (\<forall>c1 e. ensure_migration_table c = (c1, Some e) \<longrightarrow> get_current_version c = (c1, 0)) \<and>
   (\<not> closed c \<and> \<not> failed c \<and> migration_versions (working c) = Some rows \<and>
    \<not> select_granted (working c)
      \<longrightarrow> ensure_migration_table c = (c\<lparr>committed := working c\<rparr>, None) \<and>
          select_max_version (c\<lparr>committed := working c\<rparr>)
            = (c\<lparr>committed := working c, failed := True\<rparr>, Inl InsufficientPrivilege) \<and>
          get_current_version c = (c\<lparr>committed := working c, failed := True\<rparr>, 0)) \<and>
   (closed c \<or> failed c \<longrightarrow> get_current_version c = (c, 0))"
proof -
  have a: "\<forall>c1 c2 e. ensure_migration_table c = (c1, None) \<and> select_max_version c1 = (c2, Inl e)
      \<longrightarrow> get_current_version c = (c2, 0)"
    by (simp add: get_current_version_def)
  have b: "\<forall>c1 e. ensure_migration_table c = (c1, Some e) \<longrightarrow> get_current_version c = (c1, 0)"
    by (simp add: get_current_version_def)
  have d: "ensure_migration_table c = (c\<lparr>committed := working c\<rparr>, None) \<and>
          select_max_version (c\<lparr>committed := working c\<rparr>)
            = (c\<lparr>committed := working c, failed := True\<rparr>, Inl InsufficientPrivilege) \<and>
          get_current_version c = (c\<lparr>committed := working c, failed := True\<rparr>, 0)"
    if "\<not> closed c" "\<not> failed c" "migration_versions (working c) = Some rows"
       "\<not> select_granted (working c)"
    using that
    by (simp add: get_current_version_eq ensure_migration_table_def commit_def
        select_max_version_def)
  show ?thesis using a b d by (auto simp: get_current_version_eq)
qed

theorem get_current_version_spec_witness:
  "snd (get_current_version (connection_to some_rows)) = 3
   \<and> snd (get_current_version (connection_to empty_db)) = 0
   \<and> snd (get_current_version (connection_to fresh)) = 0
   \<and> select_max_version (connection_to unreadable)
       = ((connection_to unreadable)\<lparr>failed := True\<rparr>, Inl InsufficientPrivilege)
   \<and> get_current_version (connection_to unreadable)
       = ((connection_to unreadable)\<lparr>failed := True\<rparr>, 0)
   \<and> get_current_version ((connection_to empty_db)\<lparr>closed := True\<rparr>)
       = ((connection_to empty_db)\<lparr>closed := True\<rparr>, 0)"
proof -
  have a: "snd (get_current_version (connection_to some_rows)) = 3"
    using get_current_version_spec[THEN conjunct1, of "connection_to some_rows"
      "[up_row 1, up_row 3, down_row 7, up_row 2]"]
    by (simp add: connection_to_def some_rows_def up_versions_def up_row_def down_row_def)
  have b: "snd (get_current_version (connection_to empty_db)) = 0"
    using get_current_version_spec[THEN conjunct2, THEN conjunct1, of "connection_to empty_db" "[]"]
    by (simp add: connection_to_def empty_db_def)
  have c: "snd (get_current_version (connection_to fresh)) = 0"
    using get_current_version_spec[THEN conjunct2, THEN conjunct2, THEN conjunct1,
        of "connection_to fresh"]
    by (simp add: connection_to_def fresh_def)
  have u: "(connection_to unreadable)\<lparr>committed := working (connection_to unreadable)\<rparr>
             = connection_to unreadable"
    by (simp add: connection_to_def)
  have d: "select_max_version (connection_to unreadable)
       = ((connection_to unreadable)\<lparr>failed := True\<rparr>, Inl InsufficientPrivilege)
    \<and> get_current_version (connection_to unreadable)
       = ((connection_to unreadable)\<lparr>failed := True\<rparr>, 0)"
    using get_current_version_spec[THEN conjunct2, THEN conjunct2, THEN conjunct2,
        THEN conjunct2, THEN conjunct2, THEN conjunct1,
        of "connection_to unreadable" "[up_row 1, up_row 3, down_row 7, up_row 2]"]
    unfolding u
    by (simp add: connection_to_def unreadable_def some_rows_def)
  have e: "get_current_version ((connection_to empty_db)\<lparr>closed := True\<rparr>)
       = ((connection_to empty_db)\<lparr>closed := True\<rparr>, 0)"
    using get_current_version_spec[THEN conjunct2, THEN conjunct2, THEN conjunct2,
        THEN conjunct2, THEN conjunct2, THEN conjunct2,
        of "(connection_to empty_db)\<lparr>closed := True\<rparr>"]
    by simp
  from a b c d e show ?thesis by simp
qed

subsection \<open>Parsing\<close>

lemma is_space_newline [simp]: "is_space newline"
  by (simp add: is_space_def newline_def)

lemma lazy_until_dollar:
  "lazy_until at_dollar s = (if s \<noteq> [] \<and> last s = newline then butlast s else s)"
  by (induction s) (auto simp: at_dollar_def)

lemma strip_snoc_space:
  assumes "is_space x"
  shows "strip (s @ [x]) = strip s"
proof (cases "\<forall>y\<in>set s. is_space y")
  case True
  have "dropWhile is_space (s @ [x]) = []"
    unfolding dropWhile_eq_Nil_conv using True assms by auto
  moreover have "dropWhile is_space s = []"
    unfolding dropWhile_eq_Nil_conv using True by auto
  ultimately show ?thesis unfolding strip_def by (simp only:)
next
  case False
  then obtain y where "y \<in> set s" "\<not> is_space y" by auto
  then have "dropWhile is_space (s @ [x]) = dropWhile is_space s @ [x]"
    by (rule dropWhile_append1)
  then show ?thesis using assms by (simp add: strip_def)
qed

lemma strip_lazy_until_dollar: "strip (lazy_until at_dollar s) = strip s"
proof (cases "s \<noteq> [] \<and> last s = newline")
  case True
  then have "s = butlast s @ [newline]" by (metis append_butlast_last_id)
  then have "strip s = strip (butlast s)"
    using strip_snoc_space[of newline "butlast s"] by simp
  then show ?thesis using True by (simp add: lazy_until_dollar)
next
  case False
  then show ?thesis by (auto simp add: lazy_until_dollar)
qed

lemma search_marker_None:
  "search_marker w s = None \<longleftrightarrow> (\<forall>i\<le>length s. marker_line w (drop i s) = None)"
proof (induction s)
  case Nil
  then show ?case by simp
next
  case (Cons x xs)
  have "(\<forall>i\<le>length (x # xs). marker_line w (drop i (x # xs)) = None) \<longleftrightarrow>
        marker_line w (x # xs) = None \<and> (\<forall>i\<le>length xs. marker_line w (drop i xs) = None)"
    (is "?L \<longleftrightarrow> ?R")
  proof
    assume l: ?L
    have "marker_line w (x # xs) = None" using l[rule_format, of 0] by simp
    moreover have "\<forall>i\<le>length xs. marker_line w (drop i xs) = None"
    proof (intro allI impI)
      fix i assume "i \<le> length xs"
      then show "marker_line w (drop i xs) = None" using l[rule_format, of "Suc i"] by simp
    qed
    ultimately show ?R by simp
  next
    assume r: ?R
    show ?L
    proof (intro allI impI)
      fix i assume "i \<le> length (x # xs)"
      then show "marker_line w (drop i (x # xs)) = None" using r by (cases i) auto
    qed
  qed
  then show ?case using Cons.IH by (auto split: option.splits)
qed

lemma search_marker_Some:
  "search_marker w s = Some rest \<Longrightarrow>
     \<exists>i\<le>length s. marker_line w (drop i s) = Some rest \<and>
        (\<forall>j<i. marker_line w (drop j s) = None)"
proof (induction s)
  case Nil
  then show ?case by simp
next
  case (Cons x xs)
  show ?case
  proof (cases "marker_line w (x # xs)")
    case (Some r)
    then have "marker_line w (drop 0 (x # xs)) = Some rest" using Cons.prems by simp
    then show ?thesis by (intro exI[of _ 0]) simp
  next
    case None
    then have "search_marker w xs = Some rest" using Cons.prems by simp
    from Cons.IH[OF this] obtain i where i: "i \<le> length xs"
      "marker_line w (drop i xs) = Some rest" "\<forall>j<i. marker_line w (drop j xs) = None"
      by blast
    have "\<forall>j<Suc i. marker_line w (drop j (x # xs)) = None"
    proof (intro allI impI)
      fix j assume "j < Suc i"
      then show "marker_line w (drop j (x # xs)) = None" using None i(3) by (cases j) auto
    qed
    then show ?thesis using i by (intro exI[of _ "Suc i"]) simp
  qed
qed

text \<open>
  C3, as the code has it.  For a file in which no position starts an UP marker line,
  \<^verbatim>\<open>up_sql\<close> is the whole content, trimmed.  \<^verbatim>\<open>down_sql\<close> is found independently of the UP
  marker: it is empty when the file has no DOWN marker line either, and otherwise it is
  the trimmed text after the first DOWN marker line.
\<close>

theorem parse_sql_without_up_marker:
  assumes "\<forall>i\<le>length content. marker_line ''up'' (drop i content) = None"
  shows "fst (parse_sql content) = strip content \<and>
         snd (parse_sql content) =
           (case search_marker ''down'' content of None \<Rightarrow> [] | Some rest \<Rightarrow> strip rest) \<and>
         ((\<forall>i\<le>length content. marker_line ''down'' (drop i content) = None)
            \<longrightarrow> snd (parse_sql content) = [])"
proof -
  have "search_marker ''up'' content = None" using assms by (simp add: search_marker_None)
  then have "up_match content = None" by (simp add: up_match_def)
  then show ?thesis
    by (auto simp: parse_sql_def down_match_def strip_lazy_until_dollar search_marker_None[symmetric]
        split: option.splits)
qed

text \<open>
  A file with a DOWN marker and no UP marker: \<^verbatim>\<open>up_sql\<close> is the whole file and \<^verbatim>\<open>down_sql\<close>
  is not empty.
\<close>

theorem no_up_marker_counterexample:
  "up_match down_only_text = None \<and> parse_sql down_only_text = (down_only_text, ''DROP TABLE t;'')"
  by code_simp

theorem parse_sql_without_up_marker_witness:
  "parse_sql down_only_text = (down_only_text, ''DROP TABLE t;'') \<and> parse_sql ''CREATE TABLE t;'' = (''CREATE TABLE t;'', [])"
proof -
  have a: "\<forall>i\<le>length down_only_text. marker_line ''up'' (drop i down_only_text) = None"
    unfolding search_marker_None[symmetric] by code_simp
  have b: "\<forall>i\<le>length ''CREATE TABLE t;''. marker_line ''up'' (drop i ''CREATE TABLE t;'') = None"
    unfolding search_marker_None[symmetric] by code_simp
  have c: "search_marker ''down'' down_only_text = Some ''DROP TABLE t;''" by code_simp
  have d: "search_marker ''down'' ''CREATE TABLE t;'' = None" by code_simp
  have e: "strip down_only_text = down_only_text" "strip ''DROP TABLE t;'' = ''DROP TABLE t;''" 
      "strip ''CREATE TABLE t;'' = ''CREATE TABLE t;''" by code_simp+
  from parse_sql_without_up_marker[OF a] parse_sql_without_up_marker[OF b] c d e
  show ?thesis by (simp add: prod_eq_iff)
qed

subsection \<open>Runs on a fresh connection\<close>

lemma connection_prelude:
  "ensure_migration_table (connection_to d) = (connection_to (ensured d), None)"
  "get_current_version (connection_to (ensured d)) = (versioned_connection d, version_of d)"
  by (auto simp: connection_to_def ensured_def version_of_def versioned_connection_def
      get_current_version_eq ensure_migration_table_def commit_def split: option.splits)

lemma get_db_connection_eq:
  "get_db_connection r w db_name =
     (case w (target_database r db_name) of None \<Rightarrow> Inl OperationalError
      | Some d \<Rightarrow> Inr (connection_to d))"
  by (simp add: get_db_connection_def connection_to_def split: option.splits)

lemma migrate_connection_eq:
  "migrate_connection r db_name db_label target_version (connection_to d) =
     (let c = versioned_connection d;
          pending = pending_migrations (version_of d) target_version (discover_migrations r None)
      in if pending = [] then (close c, True, [UpToDate db_label (version_of d)])
         else (case migrate_pending r db_name c pending of
                 (c3, Inl e, evs) \<Rightarrow>
                   (c3, False, MigrateHeader db_label (version_of d) (version (last pending))
                               # evs @ [DatabaseError db_label e])
               | (c3, Inr False, evs) \<Rightarrow>
                   (c3, False, MigrateHeader db_label (version_of d) (version (last pending)) # evs)
               | (c3, Inr True, evs) \<Rightarrow>
                   (close c3, True,
                    MigrateHeader db_label (version_of d) (version (last pending)) # evs)))"
  by (simp add: migrate_connection_def connection_prelude Let_def)

lemma rollback_connection_eq:
  "rollback_connection r db_label steps target_version (connection_to d) =
     (let c = versioned_connection d; current = version_of d;
          target = rollback_target current steps target_version
      in if current = 0 then (close c, True, [NothingToRollback db_label])
         else if target \<ge> current then (close c, True, [AtOrBelowTarget db_label])
         else (case rollback_steps r c (to_rollback target current (discover_migrations r None)) of
                 (c3, False, evs) \<Rightarrow> (c3, False, RollbackHeader db_label current target # evs)
               | (c3, True, evs) \<Rightarrow>
                   (close c3, True, RollbackHeader db_label current target # evs)))"
  by (simp add: rollback_connection_def connection_prelude Let_def)

lemma sorted_discover: "sorted (map version (discover_migrations r scope_filter))"
  by (simp add: discover_migrations_def Let_def)

lemma pending_migrations_eq:
  "pending_migrations current target_version ms =
     filter (\<lambda>m. version m > current \<and>
                 (case target_version of None \<Rightarrow> True | Some t \<Rightarrow> t = 0 \<or> version m \<le> t)) ms"
  by (auto simp: pending_migrations_def Let_def split: option.splits intro: filter_cong)

lemma rollback_steps_processed:
  "rollback_steps r c ms = (c', ok, evs) \<Longrightarrow>
     prefix (processed evs) (map migration_key ms) \<and>
     (ok \<longrightarrow> processed evs = map migration_key ms) \<and>
     (ms \<noteq> [] \<longrightarrow> processed evs \<noteq> []) \<and>
     (dry_run r \<longrightarrow> ok \<and> c' = c \<and> attempts evs = [])"
proof (induction ms arbitrary: c c' ok evs)
  case Nil
  then show ?case by simp
next
  case (Cons m ms)
  show ?case
  proof (cases "dry_run r")
    case True
    obtain c1 ok1 evs1 where s: "rollback_steps r c ms = (c1, ok1, evs1)"
      by (cases "rollback_steps r c ms")
    from Cons.IH[OF s] Cons.prems True s show ?thesis
      by (auto simp: migration_key_def)
  next
    case False
    obtain c1 res where a: "apply_migration r c m ''down'' = (c1, res)"
      by (cases "apply_migration r c m ''down''")
    show ?thesis
    proof (cases res)
      case (Inl e)
      then show ?thesis using Cons.prems False a by (auto simp: migration_key_def)
    next
      case (Inr t)
      obtain c2 ok2 evs2 where s: "rollback_steps r c1 ms = (c2, ok2, evs2)"
        by (cases "rollback_steps r c1 ms")
      from Cons.IH[OF s] Cons.prems False a Inr s show ?thesis
        by (auto simp: migration_key_def)
    qed
  qed
qed

lemma migrate_database_eq:
  "migrate_database r w db_name db_label target_version =
     (case w (target_database r db_name) of
        None \<Rightarrow> (w, False, [DatabaseError db_label OperationalError])
      | Some d \<Rightarrow>
          (case migrate_connection r db_name db_label target_version (connection_to d) of
             (c, ok, evs) \<Rightarrow> (w(target_database r db_name \<mapsto> committed c), ok, evs)))"
  by (simp add: migrate_database_def get_db_connection_eq split: option.splits)

lemma rollback_database_eq:
  "rollback_database r w db_name db_label steps target_version =
     (case w (target_database r db_name) of
        None \<Rightarrow> (w, False, [DatabaseError db_label OperationalError])
      | Some d \<Rightarrow>
          (case rollback_connection r db_label steps target_version (connection_to d) of
             (c, ok, evs) \<Rightarrow> (w(target_database r db_name \<mapsto> committed c), ok, evs)))"
  by (simp add: rollback_database_def get_db_connection_eq split: option.splits)

subsection \<open>Rollback of a migration without a DOWN section\<close>

lemma rollback_tenants_labels:
  "map fst (snd (rollback_tenants r w ts steps tv)) =
     map (\<lambda>(tenant_id, db_name). ''TENANT '' @ tenant_id) ts"
proof (induction ts arbitrary: w)
  case Nil
  then show ?case by simp
next
  case (Cons a ts)
  obtain tid db where a: "a = (tid, db)" by (cases a)
  obtain w1 ok evs where m:
    "rollback_database r w (Some db) (''TENANT '' @ tid) steps tv = (w1, ok, evs)"
    by (cases "rollback_database r w (Some db) (''TENANT '' @ tid) steps tv")
  obtain w2 reps where t: "rollback_tenants r w1 ts steps tv = (w2, reps)"
    by (cases "rollback_tenants r w1 ts steps tv")
  from Cons.IH[of w1] t
  have "map fst reps = map (\<lambda>(tenant_id, db_name). ''TENANT '' @ tenant_id) ts" by simp
  then show ?case using a m t by simp
qed

lemma migrate_tenants_labels:
  "map fst (snd (migrate_tenants r w ts tv)) =
     map (\<lambda>(tenant_id, db_name). ''TENANT '' @ tenant_id) ts"
proof (induction ts arbitrary: w)
  case Nil
  then show ?case by simp
next
  case (Cons a ts)
  obtain tid db where a: "a = (tid, db)" by (cases a)
  obtain w1 ok evs where m:
    "migrate_database r w (Some db) (''TENANT '' @ tid) tv = (w1, ok, evs)"
    by (cases "migrate_database r w (Some db) (''TENANT '' @ tid) tv")
  obtain w2 reps where t: "migrate_tenants r w1 ts tv = (w2, reps)"
    by (cases "migrate_tenants r w1 ts tv")
  from Cons.IH[of w1] t
  have "map fst reps = map (\<lambda>(tenant_id, db_name). ''TENANT '' @ tenant_id) ts" by simp
  then show ?case using a m t by simp
qed

lemma rollback_all_labels:
  "map fst (snd (rollback_all r w steps tv)) =
     ''HOST'' # map (\<lambda>(tenant_id, db). ''TENANT '' @ tenant_id)
        (tenant_directory r (fst (rollback_database r w (POSTGRES_DATABASE r) ''HOST'' steps tv)))"
proof -
  obtain w1 ok evs where m:
    "rollback_database r w (POSTGRES_DATABASE r) ''HOST'' steps tv = (w1, ok, evs)"
    by (cases "rollback_database r w (POSTGRES_DATABASE r) ''HOST'' steps tv")
  obtain w2 reps where t: "rollback_tenants r w1 (tenant_directory r w1) steps tv = (w2, reps)"
    by (cases "rollback_tenants r w1 (tenant_directory r w1) steps tv")
  from rollback_tenants_labels[of r w1 "tenant_directory r w1" steps tv] t
  have "map fst reps = map (\<lambda>(tenant_id, db). ''TENANT '' @ tenant_id) (tenant_directory r w1)"
    by simp
  then show ?thesis using m t by (simp add: rollback_all_def)
qed

lemma migrate_all_labels:
  "map fst (snd (migrate_all r w tv)) =
     ''HOST'' # map (\<lambda>(tenant_id, db). ''TENANT '' @ tenant_id)
        (tenant_directory r (fst (migrate_database r w (POSTGRES_DATABASE r) ''HOST'' tv)))"
proof -
  obtain w1 ok evs where m:
    "migrate_database r w (POSTGRES_DATABASE r) ''HOST'' tv = (w1, ok, evs)"
    by (cases "migrate_database r w (POSTGRES_DATABASE r) ''HOST'' tv")
  obtain w2 reps where t: "migrate_tenants r w1 (tenant_directory r w1) tv = (w2, reps)"
    by (cases "migrate_tenants r w1 (tenant_directory r w1) tv")
  from migrate_tenants_labels[of r w1 "tenant_directory r w1" tv] t
  have "map fst reps = map (\<lambda>(tenant_id, db). ''TENANT '' @ tenant_id) (tenant_directory r w1)"
    by simp
  then show ?thesis using m t by (simp add: migrate_all_def)
qed

lemma apply_migration_no_section:
  "direction_sql m direction = [] \<Longrightarrow> apply_migration r c m direction = (c, Inl ValueError)"
  by (simp add: apply_migration_def direction_sql_def)

text \<open>
  C7.  Outside dry-run mode, rolling back a migration whose \<^verbatim>\<open>down_sql\<close> is empty raises
  the error for the missing section before anything is executed: the connection is as
  it was, the loop stops there (the migrations after it are not attempted), and the
  committed state, hence the tracking table and the current version, is unchanged.  When
  that migration is the first one selected, on a database whose tracking table can be
  read, \<^verbatim>\<open>rollback_database\<close> leaves the whole world as it was and returns \<^verbatim>\<open>False\<close>.  \<^verbatim>\<open>rollback_all\<close> still goes through the host and every
  tenant.
\<close>

theorem rollback_without_down_section:
  assumes "down_sql m = []" and "\<not> dry_run r"
  shows "apply_migration r c m ''down'' = (c, Inl ValueError) \<and>
         rollback_steps r c (m # ms) = (close c, False, [Failed (version m) (name m) ValueError]) \<and>
         committed (close c) = committed c \<and>
         (w (target_database r db_name) = Some d \<and> migration_versions d = Some rows \<and>
          select_granted d \<and> up_versions rows \<noteq> [] \<and> current = Max (set (up_versions rows)) \<and> current \<noteq> 0 \<and>
          target = rollback_target current steps target_version \<and> target < current \<and>
          to_rollback target current (discover_migrations r None) = m # ms
          \<longrightarrow> rollback_database r w db_name db_label steps target_version =
                (w, False, [RollbackHeader db_label current target,
                            Failed (version m) (name m) ValueError])) \<and>
         map fst (snd (rollback_all r w0 steps0 target0)) =
           ''HOST'' # map (\<lambda>(tenant_id, db). ''TENANT '' @ tenant_id)
              (tenant_directory r
                 (fst (rollback_database r w0 (POSTGRES_DATABASE r) ''HOST'' steps0 target0)))"
proof -
  have a: "apply_migration r c m ''down'' = (c, Inl ValueError)" for c
    using assms(1) by (simp add: apply_migration_no_section direction_sql_def)
  have b: "rollback_steps r c (m # ms) = (close c, False, [Failed (version m) (name m) ValueError])" for c
    using assms(2) a by simp
  have e: "rollback_database r w db_name db_label steps target_version =
                (w, False, [RollbackHeader db_label current target,
                            Failed (version m) (name m) ValueError])"
    if h: "w (target_database r db_name) = Some d" "migration_versions d = Some rows"
          "up_versions rows \<noteq> []" "current = Max (set (up_versions rows))" "current \<noteq> 0"
          "target = rollback_target current steps target_version" "target < current"
          "to_rollback target current (discover_migrations r None) = m # ms"
          "select_granted d"
  proof -
    have v: "version_of d = current" using h(2,3,4,9) by (simp add: version_of_def)
    have e: "ensured d = d" using h(2) by (simp add: ensured_def)
    have c: "versioned_connection d = connection_to d"
      using e h(9) by (simp add: versioned_connection_def connection_to_def)
    have "rollback_connection r db_label steps target_version (connection_to d) =
            (close (connection_to d), False, [RollbackHeader db_label current target,
                            Failed (version m) (name m) ValueError])"
      using v c h(5,6,7,8) b[of "connection_to d"] by (simp add: rollback_connection_eq Let_def)
    then show ?thesis using h(1)
      by (simp add: rollback_database_eq close_def connection_to_def map_upd_triv)
  qed
  have g: "committed (close c) = committed c" by (simp add: close_def)
  show ?thesis using a[of c] b[of c] g e rollback_all_labels[of r w0 steps0 target0] by blast
qed

lemma demo_discover: "discover_migrations demo_runner None = [init_migration, add_col_migration]"
  by code_simp

theorem rollback_without_down_section_witness:
  "rollback_database demo_runner host_at_1 (Some ''app'') ''HOST'' 1 None =
     (host_at_1, False, [RollbackHeader ''HOST'' 1 0, Failed 1 ''init'' ValueError])"
proof -
  have a: "down_sql init_migration = []" by (simp add: init_migration_def)
  have b: "\<not> dry_run demo_runner" by (simp add: demo_runner_def)
  have c: "up_versions [tracking_row demo_runner init_migration ''up''] = [1]"
    by (simp add: up_versions_def tracking_row_def init_migration_def)
  have d: "to_rollback 0 1 (discover_migrations demo_runner None) = init_migration # []"
    by (simp add: demo_discover to_rollback_def init_migration_def add_col_migration_def)
  have e: "host_at_1 (target_database demo_runner (Some ''app'')) = Some \<lparr> user_schema = [''CREATE TABLE t;''],
                   migration_versions = Some [tracking_row demo_runner init_migration ''up''],
                   select_granted = True \<rparr>"
    by (simp add: host_at_1_def target_database_def)
  have f: "Max (set [1::int]) = 1" by simp
  note t = rollback_without_down_section[OF a b,
      where w = host_at_1 and db_name = "Some ''app''" and rows = "[tracking_row demo_runner init_migration ''up'']"
        and d = "\<lparr> user_schema = [''CREATE TABLE t;''],
                   migration_versions = Some [tracking_row demo_runner init_migration ''up''],
                   select_granted = True \<rparr>"
        and current = 1 and target = 0 and steps = 1 and target_version = None and ms = "[]"
        and db_label = "''HOST''",
      THEN conjunct2, THEN conjunct2, THEN conjunct2, THEN conjunct1]
  have "rollback_database demo_runner host_at_1 (Some ''app'') ''HOST'' 1 None =
     (host_at_1, False, [RollbackHeader ''HOST'' 1 0,
         Failed (version init_migration) (name init_migration) ValueError])"
    by (rule t[rule_format]) (simp add: c d e f rollback_target_def)
  then show ?thesis by (simp add: init_migration_def)
qed

subsection \<open>Pending migrations\<close>

text \<open>
  C4.  The code at the input \<^verbatim>\<open>target_version = 0\<close>: on a database at version 0, with
  migrations 1 and 2 discovered, the cap is not applied (\<^verbatim>\<open>if target_version:\<close> is false at
  0); both migrations are pending, and the host run applies version 1, where a cap at 0
  would leave nothing pending.
\<close>

theorem migrate_target_zero:
  "pending_migrations 0 (Some 0) (discover_migrations demo_runner None)
     = [init_migration, add_col_migration] \<and>
   snd (migrate_database demo_runner demo_world (Some ''app'') ''HOST'' (Some 0))
     = (True, [MigrateHeader ''HOST'' 0 2, Applied 1 ''init''])"
  by code_simp

subsection \<open>Selection for rollback\<close>

text \<open>
  C6, as the code has it.  The target version defaults to \<^verbatim>\<open>max(0, current - steps)\<close>.
  The selection holds exactly the discovered migrations with
  \<open>target < version \<le> current\<close>, highest version first.  When the current version is 0
  the run returns before selecting and processes nothing; otherwise the migrations it
  processes are the selected ones, in that order, up to and including the first failure,
  and all of them when the run returns \<^verbatim>\<open>True\<close>.
\<close>

theorem rollback_selection:
  assumes "w (target_database r db_name) = Some d"
    and "current = version_of d"
    and "target = rollback_target current steps target_version"
    and "selected = to_rollback target current (discover_migrations r None)"
    and "rollback_database r w db_name db_label steps target_version = (w', ok, evs)"
  shows "rollback_target current steps None = max 0 (current - steps) \<and>
         set selected = {m \<in> set (discover_migrations r None).
                           target < version m \<and> version m \<le> current} \<and>
         sorted (rev (map version selected)) \<and>
         (current = 0 \<longrightarrow> processed evs = []) \<and>
         (current \<noteq> 0 \<longrightarrow>
            prefix (processed evs) (map migration_key selected) \<and>
            (ok \<longrightarrow> processed evs = map migration_key selected))"
proof -
  have a: "rollback_target current steps None = max 0 (current - steps)"
    by (simp add: rollback_target_def)
  have b: "set selected = {m \<in> set (discover_migrations r None).
                           target < version m \<and> version m \<le> current}"
    using assms(4) by (auto simp: to_rollback_def)
  have c: "sorted (rev (map version selected))"
    using assms(4) sorted_discover[of r None]
    by (simp add: to_rollback_def rev_map[symmetric] sorted_filter)
  obtain c3 ok3 evs3 where s:
    "rollback_steps r (versioned_connection d) selected = (c3, ok3, evs3)"
    by (cases "rollback_steps r (versioned_connection d) selected")
  note p = rollback_steps_processed[OF s]
  have sel_empty: "selected = []" if "target \<ge> current"
    using that assms(4) by (auto simp: to_rollback_def filter_empty_conv)
  have d: "processed evs = []" if "current = 0"
    using that assms(1,2,5) by (auto simp: rollback_database_eq rollback_connection_eq Let_def)
  have e: "prefix (processed evs) (map migration_key selected) \<and>
            (ok \<longrightarrow> processed evs = map migration_key selected)" if "current \<noteq> 0"
  proof (cases "target \<ge> current")
    case True
    then show ?thesis using that assms(1,2,3,5) sel_empty
      by (auto simp: rollback_database_eq rollback_connection_eq Let_def)
  next
    case False
    then show ?thesis using that assms(1,2,3,4,5) s p
      by (cases ok3) (auto simp: rollback_database_eq rollback_connection_eq Let_def)
  qed
  show ?thesis using a b c d e by blast
qed

text \<open>
  A database at version 0, a migration numbered 0 and the target \<open>-1\<close>: the range
  \<open>-1 < version \<le> 0\<close> holds that migration, and the run reports that there is nothing to
  roll back.
\<close>

theorem rollback_at_version_zero:
  "to_rollback (rollback_target 0 1 (Some (- 1))) 0 (discover_migrations zero_runner None)
     = [base_migration] \<and>
   snd (rollback_database zero_runner demo_world (Some ''app'') ''HOST'' 1 (Some (- 1)))
     = (True, [NothingToRollback ''HOST''])"
  by code_simp

theorem rollback_selection_witness:
  "snd (rollback_database mixed_runner tenant_at_3 (Some ''tenant_acme'') ''TENANT 7'' 2 None)
     = (True, [RollbackHeader ''TENANT 7'' 3 1, RolledBack 3 ''index'', RolledBack 2 ''add_col''])
   \<and> to_rollback 1 3 (discover_migrations mixed_runner None) = [index_migration, add_col_migration]
   \<and> sorted (rev (map version [index_migration, add_col_migration]))"
proof -
  let ?d = "\<lparr> user_schema = [''ALTER TABLE u ADD c int;'', ''CREATE INDEX i;''],
              migration_versions =
                Some [tracking_row mixed_runner add_col_migration ''up'',
                      tracking_row mixed_runner index_migration ''up''],
              select_granted = True \<rparr>"
  let ?evs = "[RollbackHeader ''TENANT 7'' 3 1, RolledBack 3 ''index'', RolledBack 2 ''add_col'']"
  have h1: "tenant_at_3 (target_database mixed_runner (Some ''tenant_acme'')) = Some ?d"
    by (simp add: tenant_at_3_def target_database_def)
  have h2: "3 = version_of ?d" by code_simp
  have h3: "1 = rollback_target 3 2 None" by (simp add: rollback_target_def)
  have h4: "[index_migration, add_col_migration]
              = to_rollback 1 3 (discover_migrations mixed_runner None)"
    by code_simp
  have s: "snd (rollback_database mixed_runner tenant_at_3 (Some ''tenant_acme'') ''TENANT 7'' 2 None)
             = (True, ?evs)"
    by code_simp
  then have h5: "rollback_database mixed_runner tenant_at_3 (Some ''tenant_acme'') ''TENANT 7'' 2 None
          = (fst (rollback_database mixed_runner tenant_at_3 (Some ''tenant_acme'') ''TENANT 7'' 2 None),
             True, ?evs)"
    by (simp add: prod_eq_iff)
  from rollback_selection[OF h1 h2 h3 h4 h5] s h4 show ?thesis by simp
qed

subsection \<open>Scope\<close>

lemma rollback_steps_attempts:
  "rollback_steps r c ms = (c', ok, evs) \<Longrightarrow> \<not> dry_run r \<Longrightarrow> attempts evs = processed evs"
proof (induction ms arbitrary: c c' ok evs)
  case Nil
  then show ?case by simp
next
  case (Cons m ms)
  obtain c1 res where a: "apply_migration r c m ''down'' = (c1, res)"
    by (cases "apply_migration r c m ''down''")
  show ?case
  proof (cases res)
    case (Inl e)
    then show ?thesis using Cons.prems a by auto
  next
    case (Inr t)
    obtain c2 ok2 evs2 where s: "rollback_steps r c1 ms = (c2, ok2, evs2)"
      by (cases "rollback_steps r c1 ms")
    from Cons.IH[OF s] Cons.prems a Inr s show ?thesis by auto
  qed
qed

lemma scope_skip_eq:
  "scope_skip r (Some n) m =
     Inr (scope m = ''host'' \<and> contains ''tenant'' (lower n) \<or>
          scope m = ''tenant'' \<and> Some n = POSTGRES_DATABASE r)"
  by (auto simp: scope_skip_def split: sum.splits bool.splits)

text \<open>
  C10, as the code has it.  \<^verbatim>\<open>rollback_database\<close> has no scope test.  On every database
  whose current version is not 0, the migrations it processes are the discovered
  migrations with \<open>target < version \<le> current\<close>, whatever their scope, highest version
  first: all of them when the run returns \<^verbatim>\<open>True\<close>, and otherwise those up to and
  including the first one that fails.  Outside dry-run mode each of them is an attempt on
  the database.  The selection commutes with any change of the scopes, while the forward
  loop skips a tenant-scoped migration on the host database.
\<close>

theorem rollback_ignores_scope:
  assumes "w (target_database r db_name) = Some d"
    and "version_of d \<noteq> 0"
    and "target = rollback_target (version_of d) steps target_version"
    and "in_range = filter (\<lambda>m. target < version m \<and> version m \<le> version_of d)
                      (discover_migrations r None)"
    and "rollback_database r w db_name db_label steps target_version = (w', ok, evs)"
  shows "prefix (processed evs) (map migration_key (rev in_range)) \<and>
         (ok \<longrightarrow> processed evs = map migration_key (rev in_range)) \<and>
         (in_range \<noteq> [] \<longrightarrow> processed evs \<noteq> []) \<and>
         (\<not> dry_run r \<longrightarrow> attempts evs = processed evs) \<and>
         to_rollback t v (map (\<lambda>m. m\<lparr>scope := f m\<rparr>) ms)
           = map (\<lambda>m. m\<lparr>scope := f m\<rparr>) (to_rollback t v ms) \<and>
         (scope m = ''tenant'' \<longrightarrow> scope_skip r (POSTGRES_DATABASE r) m = Inr True)"
proof -
  let ?sel = "to_rollback target (version_of d) (discover_migrations r None)"
  have sel: "?sel = rev in_range" using assms(4) by (simp add: to_rollback_def)
  obtain c3 ok3 evs3 where s: "rollback_steps r (versioned_connection d) ?sel = (c3, ok3, evs3)"
    by (cases "rollback_steps r (versioned_connection d) ?sel")
  note p = rollback_steps_processed[OF s]
  note q = rollback_steps_attempts[OF s]
  have empty: "in_range = []" if "target \<ge> version_of d"
    using that assms(4) by (auto simp: filter_empty_conv)
  have a: "prefix (processed evs) (map migration_key (rev in_range)) \<and>
         (ok \<longrightarrow> processed evs = map migration_key (rev in_range)) \<and>
         (in_range \<noteq> [] \<longrightarrow> processed evs \<noteq> []) \<and>
         (\<not> dry_run r \<longrightarrow> attempts evs = processed evs)"
  proof (cases "target \<ge> version_of d")
    case True
    then show ?thesis using assms(1,2,3,5) empty
      by (auto simp: rollback_database_eq rollback_connection_eq Let_def)
  next
    case False
    then show ?thesis using assms(1,2,3,5) s p q sel
      by (cases ok3) (auto simp: rollback_database_eq rollback_connection_eq Let_def)
  qed
  have b: "to_rollback t v (map (\<lambda>m. m\<lparr>scope := f m\<rparr>) ms)
           = map (\<lambda>m. m\<lparr>scope := f m\<rparr>) (to_rollback t v ms)"
    by (simp add: to_rollback_def filter_map rev_map comp_def)
  have c: "scope_skip r (POSTGRES_DATABASE r) m = Inr True" if "scope m = ''tenant''"
    using that by (simp add: scope_skip_def)
  show ?thesis using a b c by blast
qed

text \<open>
  Two migrations in the range that are not attempted.  At version 2 with the target 0,
  the rollback of version 2 fails for its missing DOWN section and version 1, which has
  one, is never rolled back.  At version 0 with the target \<open>-1\<close>, the migration numbered
  0 lies in the range and the run returns before selecting.
\<close>

theorem rollback_not_attempted_counterexample:
  "filter (\<lambda>m. 0 < version m \<and> version m \<le> 2) (discover_migrations stack_runner None)
     = [first_migration, second_migration]
   \<and> down_sql first_migration = ''DROP TABLE f;''
   \<and> snd (rollback_database stack_runner host_at_2 (Some ''app'') ''HOST'' 2 None)
     = (False, [RollbackHeader ''HOST'' 2 0, Failed 2 ''second'' ValueError])
   \<and> filter (\<lambda>m. - 1 < version m \<and> version m \<le> 0) (discover_migrations zero_runner None)
     = [base_migration]
   \<and> snd (rollback_database zero_runner demo_world (Some ''app'') ''HOST'' 1 (Some (- 1)))
     = (True, [NothingToRollback ''HOST''])"
  by code_simp

theorem rollback_ignores_scope_witness:
  "snd (rollback_database mixed_runner host_at_3 (Some ''app'') ''HOST'' 2 None)
     = (True, [RollbackHeader ''HOST'' 3 1, RolledBack 3 ''index'', RolledBack 2 ''add_col''])
   \<and> attempts [RollbackHeader ''HOST'' 3 1, RolledBack 3 ''index'', RolledBack 2 ''add_col'']
       = [migration_key index_migration, migration_key add_col_migration]
   \<and> scope add_col_migration = ''tenant''
   \<and> map user_schema
        (case_option [] (\<lambda>d. [d]) (fst (rollback_database mixed_runner host_at_3 (Some ''app'') ''HOST'' 2 None) (Some ''app'')))
       = [[''CREATE TABLE t;'', ''CREATE INDEX i;'', ''DROP INDEX i;'', ''ALTER TABLE u DROP c;'']]"
proof -
  let ?d = "\<lparr> user_schema = [''CREATE TABLE t;'', ''CREATE INDEX i;''],
              migration_versions =
                Some [tracking_row mixed_runner init_migration ''up'',
                      tracking_row mixed_runner index_migration ''up''],
              select_granted = True \<rparr>"
  let ?evs = "[RollbackHeader ''HOST'' 3 1, RolledBack 3 ''index'', RolledBack 2 ''add_col'']"
  have h1: "host_at_3 (target_database mixed_runner (Some ''app'')) = Some ?d"
    by (simp add: host_at_3_def target_database_def)
  have v: "version_of ?d = 3" by code_simp
  have h2: "version_of ?d \<noteq> 0" by (simp add: v)
  have h3: "1 = rollback_target (version_of ?d) 2 None" by (simp add: rollback_target_def v)
  have h4: "[add_col_migration, index_migration]
              = filter (\<lambda>m. 1 < version m \<and> version m \<le> version_of ?d)
                  (discover_migrations mixed_runner None)"
    unfolding v by code_simp
  have s: "snd (rollback_database mixed_runner host_at_3 (Some ''app'') ''HOST'' 2 None)
             = (True, ?evs)"
    by code_simp
  then have h5: "rollback_database mixed_runner host_at_3 (Some ''app'') ''HOST'' 2 None
          = (fst (rollback_database mixed_runner host_at_3 (Some ''app'') ''HOST'' 2 None),
             True, ?evs)"
    by (simp add: prod_eq_iff)
  have nd: "\<not> dry_run mixed_runner" by (simp add: mixed_runner_def demo_runner_def)
  have j: "map user_schema
        (case_option [] (\<lambda>d. [d]) (fst (rollback_database mixed_runner host_at_3 (Some ''app'') ''HOST'' 2 None) (Some ''app'')))
       = [[''CREATE TABLE t;'', ''CREATE INDEX i;'', ''DROP INDEX i;'', ''ALTER TABLE u DROP c;'']]"
    by code_simp
  from rollback_ignores_scope[OF h1 h2 h3 h4 h5] s nd j show ?thesis
    by (simp add: add_col_migration_def)
qed

lemma migrate_pending_skip:
  "scope_skip r db_name m = Inr True \<Longrightarrow>
     migrate_pending r db_name c (m # ms) = migrate_pending r db_name c ms"
  by simp

text \<open>
  C5, as the code has it.  A pending migration is skipped, and the loop goes on, exactly
  when its scope is \<^verbatim>\<open>host\<close> and the name of the target database contains the word
  \<^verbatim>\<open>tenant\<close> (in any case), or its scope is \<^verbatim>\<open>tenant\<close> and the target's name is the value of
  \<^verbatim>\<open>POSTGRES_DATABASE\<close>; a migration of scope \<^verbatim>\<open>both\<close> is never skipped.  With a host-scoped
  and a tenant-scoped migration pending, the run on the host database is the run with
  the first one alone provided the host's name does not contain \<^verbatim>\<open>tenant\<close>, and the run
  on a database whose name contains \<^verbatim>\<open>tenant\<close> and is not the host's is the run with the
  second one alone.
\<close>

theorem scope_filter:
  "scope_skip r (Some n) m =
     Inr (scope m = ''host'' \<and> contains ''tenant'' (lower n) \<or>
          scope m = ''tenant'' \<and> Some n = POSTGRES_DATABASE r) \<and>
   (scope_skip r db_name m = Inr True \<longrightarrow>
      migrate_pending r db_name c (m # ms) = migrate_pending r db_name c ms) \<and>
   (scope m = ''both'' \<longrightarrow> scope_skip r db_name m = Inr False) \<and>
   (scope m1 = ''host'' \<and> scope m2 = ''tenant'' \<and> POSTGRES_DATABASE r = Some h \<and>
    \<not> contains ''tenant'' (lower h) \<longrightarrow>
      scope_skip r (Some h) m1 = Inr False \<and>
      migrate_pending r (Some h) c [m1, m2] = migrate_pending r (Some h) c [m1]) \<and>
   (scope m1 = ''host'' \<and> scope m2 = ''tenant'' \<and> contains ''tenant'' (lower n) \<and>
    Some n \<noteq> POSTGRES_DATABASE r \<longrightarrow>
      scope_skip r (Some n) m2 = Inr False \<and>
      migrate_pending r (Some n) c [m1, m2] = migrate_pending r (Some n) c [m2])"
proof -
  have a: "scope_skip r db_name m = Inr False" if "scope m = ''both''"
    using that by (simp add: scope_skip_def)
  have b: "scope_skip r (Some h) m1 = Inr False \<and>
      migrate_pending r (Some h) c [m1, m2] = migrate_pending r (Some h) c [m1]"
    if "scope m1 = ''host''" "scope m2 = ''tenant''" "POSTGRES_DATABASE r = Some h"
       "\<not> contains ''tenant'' (lower h)"
    using that by (simp add: scope_skip_eq split: prod.splits sum.splits)
  have c: "scope_skip r (Some n) m2 = Inr False \<and>
      migrate_pending r (Some n) c [m1, m2] = migrate_pending r (Some n) c [m2]"
    if "scope m1 = ''host''" "scope m2 = ''tenant''" "contains ''tenant'' (lower n)"
       "Some n \<noteq> POSTGRES_DATABASE r"
    using that by (simp add: scope_skip_eq)
  show ?thesis using scope_skip_eq[of r n m] migrate_pending_skip[of r db_name m c ms] a b c
    by blast
qed

text \<open>
  With \<^verbatim>\<open>host/001_init.sql\<close> and \<^verbatim>\<open>tenant/002_add_col.sql\<close>: on a host database named
  \<^verbatim>\<open>multitenant\<close> nothing is applied, and on a tenant database named \<^verbatim>\<open>acme\<close> both
  versions are.
\<close>

theorem scope_by_name_counterexample:
  "snd (migrate_database multitenant_runner other_world (Some ''multitenant'') ''HOST'' None)
     = (True, [MigrateHeader ''HOST'' 0 2])
   \<and> POSTGRES_DATABASE multitenant_runner = Some ''multitenant''
   \<and> snd (migrate_database multitenant_runner other_world (Some ''acme'') ''TENANT 7'' None)
     = (True, [MigrateHeader ''TENANT 7'' 0 2, Applied 1 ''init'', Applied 2 ''add_col''])"
  by code_simp

theorem scope_filter_witness:
  "scope_skip demo_runner (Some ''app'') add_col_migration = Inr True
   \<and> scope_skip demo_runner (Some ''tenant_acme'') init_migration = Inr True
   \<and> discover_migrations demo_runner None = [init_migration, add_col_migration]
   \<and> snd (migrate_database demo_runner demo_world (Some ''app'') ''HOST'' None)
       = (True, [MigrateHeader ''HOST'' 0 2, Applied 1 ''init''])
   \<and> snd (migrate_database demo_runner demo_world (Some ''tenant_acme'') ''TENANT 7'' None)
       = (True, [MigrateHeader ''TENANT 7'' 0 2, Applied 2 ''add_col''])"
proof -
  have a: "scope_skip demo_runner (Some ''app'') add_col_migration = Inr True"
    using scope_filter[THEN conjunct1, of demo_runner "''app''" add_col_migration]
    by (simp add: demo_runner_def add_col_migration_def)
  have b: "scope_skip demo_runner (Some ''tenant_acme'') init_migration = Inr True"
    using scope_filter[THEN conjunct1, of demo_runner "''tenant_acme''" init_migration]
    by (simp add: demo_runner_def init_migration_def lower_def to_lower_def)
  have c: "snd (migrate_database demo_runner demo_world (Some ''app'') ''HOST'' None)
       = (True, [MigrateHeader ''HOST'' 0 2, Applied 1 ''init''])"
    by code_simp
  have d: "snd (migrate_database demo_runner demo_world (Some ''tenant_acme'') ''TENANT 7'' None)
       = (True, [MigrateHeader ''TENANT 7'' 0 2, Applied 2 ''add_col''])"
    by code_simp
  show ?thesis using a b c d demo_discover by simp
qed

subsection \<open>The forward loop\<close>

lemma up_versions_append [simp]: "up_versions (xs @ ys) = up_versions xs @ up_versions ys"
  by (simp add: up_versions_def)

lemma up_versions_tracking_row [simp]: "up_versions [tracking_row r m ''up''] = [version m]"
  by (simp add: up_versions_def tracking_row_def)

lemma apply_up_settled:
  assumes "apply_migration r c m ''up'' = (c1, Inr t)" and "settled c"
  shows "settled c1 \<and>
         up_versions (table_rows (committed c1)) = up_versions (table_rows (committed c)) @ [version m]"
proof -
  let ?sql = "up_sql m"
  have ne: "?sql \<noteq> []" using assms(1) by (auto simp: apply_migration_def)
  have open_c: "\<not> closed c" "\<not> failed c" "working c = committed c"
    using assms(2) by (simp_all add: settled_def)
  obtain rows where rows: "migration_versions (committed c) = Some rows"
    using assms(2) by (auto simp: settled_def)
  obtain cb e where b: "run_body (statements_of r ?sql) False c = (cb, e)"
    by (cases "run_body (statements_of r ?sql) False c")
  have ex: "execute_sql r c ?sql = (cb, e)" using open_c b by (simp add: execute_sql_def)
  have e: "e = None"
    using assms(1) ne ex
    by (cases e) (auto simp: apply_migration_def on_failure_def rollback_def split: if_splits)
  from run_body_tables[OF b] open_c e rows
  have cb: "\<not> closed cb" "\<not> failed cb" "migration_versions (working cb) = Some rows"
    "select_granted (working cb) = select_granted (committed c)"
    by simp_all
  have "c1 = cb\<lparr>working := (working cb)\<lparr>migration_versions := Some (rows @ [tracking_row r m ''up''])\<rparr>,
                 committed := (working cb)\<lparr>migration_versions := Some (rows @ [tracking_row r m ''up''])\<rparr>\<rparr>"
    using assms(1) ne ex e cb
    by (auto simp: apply_migration_def execute_insert_def commit_def on_failure_def rollback_def
        split: if_splits)
  then show ?thesis using cb rows assms(2)
    by (simp add: settled_def table_rows_def)
qed

text \<open>In an aborted transaction every attempt fails, so a loop that runs to its end has
  skipped everything.\<close>

lemma apply_migration_aborted:
  "failed c \<Longrightarrow> \<exists>c1 e. apply_migration r c m direction = (c1, Inl e)"
  by (auto simp: apply_migration_def execute_sql_def on_failure_def rollback_def Let_def)

lemma migrate_pending_aborted:
  "failed c \<Longrightarrow> \<not> dry_run r \<Longrightarrow> migrate_pending r db c ms = (c', Inr True, evs) \<Longrightarrow>
     (\<forall>m\<in>set ms. scope_skip r db m = Inr True) \<and> c' = c \<and> evs = []"
proof (induction ms)
  case Nil
  then show ?case by simp
next
  case (Cons m ms)
  show ?case
  proof (cases "scope_skip r db m")
    case (Inl e)
    then show ?thesis using Cons.prems by simp
  next
    case (Inr skip)
    show ?thesis
    proof (cases skip)
      case True
      then show ?thesis using Cons Inr by simp
    next
      case False
      obtain c1 e where "apply_migration r c m ''up'' = (c1, Inl e)"
        using apply_migration_aborted[OF Cons.prems(1)] by blast
      then show ?thesis using Cons.prems Inr False by simp
    qed
  qed
qed

lemma migrate_pending_done:
  assumes "migrate_pending r db c ms = (c', Inr True, evs)" and "\<not> dry_run r" and "settled c"
  shows "settled c' \<and>
         (\<forall>m\<in>set ms. scope_skip r db m = Inr True \<or>
                      version m \<in> set (up_versions (table_rows (committed c')))) \<and>
         set (up_versions (table_rows (committed c))) \<subseteq> set (up_versions (table_rows (committed c'))) \<and>
         set (up_versions (table_rows (committed c')))
           \<subseteq> set (up_versions (table_rows (committed c))) \<union> version ` set ms"
  using assms
proof (induction ms arbitrary: c evs)
  case Nil
  then show ?case by simp
next
  case (Cons m ms)
  show ?case
  proof (cases "scope_skip r db m")
    case (Inl e)
    then show ?thesis using Cons.prems by simp
  next
    case (Inr skip)
    show ?thesis
    proof (cases skip)
      case True
      then have "migrate_pending r db c ms = (c', Inr True, evs)"
        using Cons.prems(1) Inr by simp
      from Cons.IH[OF this Cons.prems(2,3)] show ?thesis using Inr True by auto
    next
      case False
      obtain c1 res where a: "apply_migration r c m ''up'' = (c1, res)"
        by (cases "apply_migration r c m ''up''")
      show ?thesis
      proof (cases res)
        case (Inl e)
        then show ?thesis using Cons.prems a Inr False by simp
      next
        case (Inr t)
        note s1 = apply_up_settled[OF a[unfolded Inr] Cons.prems(3)]
        obtain c2 res2 evs2 where p: "migrate_pending r db c1 ms = (c2, res2, evs2)"
          by (cases "migrate_pending r db c1 ms")
        have "c2 = c'" "res2 = Inr True"
          using Cons.prems(1,2) a Inr \<open>scope_skip r db m = Inr skip\<close> False p by auto
        then have "migrate_pending r db c1 ms = (c', Inr True, evs2)" using p by simp
        from Cons.IH[OF this Cons.prems(2)] s1 show ?thesis by auto
      qed
    qed
  qed
qed

lemma migrate_pending_all_skipped:
  "\<forall>m\<in>set ms. scope_skip r db m = Inr True \<Longrightarrow> migrate_pending r db c ms = (c, Inr True, [])"
  by (induction ms) auto

lemma migrate_pending_dry:
  "dry_run r \<Longrightarrow> migrate_pending r db c ms = (c', res, evs) \<Longrightarrow> c' = c \<and> attempts evs = []"
proof (induction ms arbitrary: c' res evs)
  case Nil
  then show ?case by simp
next
  case (Cons m ms)
  obtain c2 res2 evs2 where p: "migrate_pending r db c ms = (c2, res2, evs2)"
    by (cases "migrate_pending r db c ms")
  from Cons.IH[OF Cons.prems(1) p] Cons.prems p show ?case
    by (auto split: sum.splits bool.splits)
qed

lemma migrate_pending_failed:
  "migrate_pending r db c ms = (c', Inr False, evs) \<Longrightarrow>
     \<not> dry_run r \<and>
     (\<exists>pre m post e. ms = pre @ m # post \<and>
        evs = map (\<lambda>x. Applied (version x) (name x))
                (filter (\<lambda>x. scope_skip r db x = Inr False) pre)
              @ [Failed (version m) (name m) e])"
proof (induction ms arbitrary: c evs)
  case Nil
  then show ?case by simp
next
  case (Cons m ms)
  show ?case
  proof (cases "scope_skip r db m")
    case (Inl e)
    then show ?thesis using Cons.prems by simp
  next
    case (Inr skip)
    show ?thesis
    proof (cases skip)
      case True
      then have "migrate_pending r db c ms = (c', Inr False, evs)"
        using Cons.prems(1) Inr by simp
      from Cons.IH[OF this] obtain pre x post e where
        h: "\<not> dry_run r" "ms = pre @ x # post"
           "evs = map (\<lambda>x. Applied (version x) (name x))
                (filter (\<lambda>x. scope_skip r db x = Inr False) pre)
              @ [Failed (version x) (name x) e]"
        by blast
      have "m # ms = (m # pre) @ x # post" using h(2) by simp
      moreover have "evs = map (\<lambda>x. Applied (version x) (name x))
                (filter (\<lambda>x. scope_skip r db x = Inr False) (m # pre))
              @ [Failed (version x) (name x) e]"
        using h(3) Inr True by simp
      ultimately show ?thesis using h(1) by blast
    next
      case False
      show ?thesis
      proof (cases "dry_run r")
        case True
        obtain c2 res2 evs2 where p: "migrate_pending r db c ms = (c2, res2, evs2)"
          by (cases "migrate_pending r db c ms")
        then have "res2 = Inr False" using Cons.prems Inr False True by simp
        with Cons.IH[of c evs2] p True show ?thesis
          using Cons.prems Inr False by auto
      next
        case nd: False
        obtain c1 res where a: "apply_migration r c m ''up'' = (c1, res)"
          by (cases "apply_migration r c m ''up''")
        show ?thesis
        proof (cases res)
          case (Inl e)
          then have "evs = [Failed (version m) (name m) e]"
            using Cons.prems a Inr False nd by simp
          then have "m # ms = [] @ m # ms \<and>
              evs = map (\<lambda>x. Applied (version x) (name x))
                (filter (\<lambda>x. scope_skip r db x = Inr False) [])
              @ [Failed (version m) (name m) e]"
            by simp
          then show ?thesis using nd by blast
        next
          case (Inr t)
          obtain c2 res2 evs2 where p: "migrate_pending r db c1 ms = (c2, res2, evs2)"
            by (cases "migrate_pending r db c1 ms")
          have r2: "res2 = Inr False" "evs = Applied (version m) (name m) # evs2" "c2 = c'"
            using Cons.prems a Inr \<open>scope_skip r db m = Inr skip\<close> False nd p by auto
          from Cons.IH[of c1 evs2] p r2 obtain pre x post e where
            h: "ms = pre @ x # post"
               "evs2 = map (\<lambda>x. Applied (version x) (name x))
                (filter (\<lambda>x. scope_skip r db x = Inr False) pre)
              @ [Failed (version x) (name x) e]"
            by blast
          have "m # ms = (m # pre) @ x # post" using h(1) by simp
          moreover have "evs = map (\<lambda>x. Applied (version x) (name x))
                (filter (\<lambda>x. scope_skip r db x = Inr False) (m # pre))
              @ [Failed (version x) (name x) e]"
            using h(2) r2(2) \<open>scope_skip r db m = Inr skip\<close> False by simp
          ultimately show ?thesis using nd by blast
        qed
      qed
    qed
  qed
qed

subsection \<open>Several databases\<close>

lemma migrate_database_frame:
  "migrate_database r w db_name db_label tv = (w1, ok, evs) \<Longrightarrow>
     k \<noteq> target_database r db_name \<Longrightarrow> w1 k = w k"
  by (auto simp: migrate_database_eq split: option.splits prod.splits)

lemma migrate_database_local:
  assumes "w1 (target_database r b) = w (target_database r b)"
  shows "snd (migrate_database r w1 b lb tv) = snd (migrate_database r w b lb tv) \<and>
         fst (migrate_database r w1 b lb tv) (target_database r b)
           = fst (migrate_database r w b lb tv) (target_database r b)"
  using assms by (auto simp: migrate_database_eq split: option.splits prod.splits)

lemma after_tenants_Cons:
  "after_tenants r tv w (t # ts) =
     after_tenants r tv (fst (migrate_database r w (Some (snd t)) (tenant_label t) tv)) ts"
  by (simp add: after_tenants_def)

lemma after_tenants_Nil [simp]: "after_tenants r tv w [] = w"
  by (simp add: after_tenants_def)

lemma migrate_tenants_Cons:
  "migrate_tenants r w (t # ts) tv =
     (fst (migrate_tenants r (fst (migrate_database r w (Some (snd t)) (tenant_label t) tv)) ts tv),
      (tenant_label t, snd (migrate_database r w (Some (snd t)) (tenant_label t) tv))
        # snd (migrate_tenants r (fst (migrate_database r w (Some (snd t)) (tenant_label t) tv)) ts tv))"
  by (cases t) (simp add: tenant_label_def split: prod.splits)

lemma migrate_tenants_world: "fst (migrate_tenants r w ts tv) = after_tenants r tv w ts"
  by (induction ts arbitrary: w) (simp_all add: migrate_tenants_Cons after_tenants_Cons)

lemma migrate_tenants_length: "length (snd (migrate_tenants r w ts tv)) = length ts"
  by (induction ts arbitrary: w) (simp_all add: migrate_tenants_Cons)

lemma migrate_tenants_nth:
  "i < length ts \<Longrightarrow>
     snd (migrate_tenants r w ts tv) ! i =
       (tenant_label (ts ! i),
        snd (migrate_database r (after_tenants r tv w (take i ts)) (Some (snd (ts ! i)))
               (tenant_label (ts ! i)) tv))"
proof (induction ts arbitrary: w i)
  case Nil
  then show ?case by simp
next
  case (Cons t ts)
  show ?case
  proof (cases i)
    case 0
    then show ?thesis by (simp add: migrate_tenants_Cons)
  next
    case (Suc j)
    then have "j < length ts" using Cons.prems by simp
    from Cons.IH[OF this] show ?thesis using Suc
      by (simp add: migrate_tenants_Cons after_tenants_Cons)
  qed
qed

lemma after_tenants_frame:
  "\<forall>t\<in>set ts. tenant_key r t \<noteq> k \<Longrightarrow> after_tenants r tv w ts k = w k"
proof (induction ts arbitrary: w)
  case Nil
  then show ?case by simp
next
  case (Cons t ts)
  obtain w1 ok evs where m: "migrate_database r w (Some (snd t)) (tenant_label t) tv = (w1, ok, evs)"
    by (cases "migrate_database r w (Some (snd t)) (tenant_label t) tv")
  have "w1 k = w k"
    using migrate_database_frame[OF m, of k] Cons.prems by (auto simp: tenant_key_def)
  moreover have "after_tenants r tv w1 ts k = w1 k" using Cons by simp
  ultimately show ?case using m by (simp add: after_tenants_Cons)
qed

lemma migrate_all_eq:
  "migrate_all r w tv =
     (fst (migrate_tenants r (fst (migrate_database r w (POSTGRES_DATABASE r) ''HOST'' tv))
             (tenant_directory r (fst (migrate_database r w (POSTGRES_DATABASE r) ''HOST'' tv))) tv),
      (''HOST'', snd (migrate_database r w (POSTGRES_DATABASE r) ''HOST'' tv))
        # snd (migrate_tenants r (fst (migrate_database r w (POSTGRES_DATABASE r) ''HOST'' tv))
             (tenant_directory r (fst (migrate_database r w (POSTGRES_DATABASE r) ''HOST'' tv))) tv))"
  by (simp add: migrate_all_def split: prod.splits)

text \<open>
  C2.  When applying a migration fails, the loop of that database stops there: the
  failure is the last message, after the messages of the migrations applied before it,
  and the migrations behind it are not attempted; \<^verbatim>\<open>migrate_database\<close> then returns
  \<^verbatim>\<open>False\<close> with these messages under its header.  \<^verbatim>\<open>migrate_all\<close> nevertheless runs
  \<^verbatim>\<open>migrate_database\<close> on the host and then on every tenant of the directory, in its
  order: its report has one entry for each of them, and the entry of a tenant is what
  \<^verbatim>\<open>migrate_database\<close> returns for it on the world that the runs before it have left.
  When no run before it was on the tenant's own database, that is what
  \<^verbatim>\<open>migrate_database\<close> returns for it on the world at the start, whatever happened on the
  other databases.
\<close>

theorem failure_is_contained:
  assumes "w1 = fst (migrate_database r w (POSTGRES_DATABASE r) ''HOST'' tv)"
    and "ts = tenant_directory r w1"
  shows
  "(scope_skip r db_name m = Inr False \<and> \<not> dry_run r \<and>
    apply_migration r c m ''up'' = (c1, Inl e) \<longrightarrow>
      migrate_pending r db_name c (m # ms)
        = (close c1, Inr False, [Failed (version m) (name m) e])) \<and>
   (migrate_pending r db_name c pending = (c', Inr False, evs) \<longrightarrow>
      (\<exists>pre x post e. pending = pre @ x # post \<and>
         evs = map (\<lambda>y. Applied (version y) (name y))
                 (filter (\<lambda>y. scope_skip r db_name y = Inr False) pre)
               @ [Failed (version x) (name x) e])) \<and>
   (u0 (target_database r db0) = Some d0 \<and>
    pending0 = pending_migrations (version_of d0) tv0 (discover_migrations r None) \<and>
    migrate_pending r db0 (versioned_connection d0) pending0 = (c0, Inr False, evs0) \<longrightarrow>
      snd (migrate_database r u0 db0 label0 tv0)
        = (False, MigrateHeader label0 (version_of d0) (version (last pending0)) # evs0)) \<and>
   length (snd (migrate_all r w tv)) = Suc (length ts) \<and>
   snd (migrate_all r w tv) ! 0
     = (''HOST'', snd (migrate_database r w (POSTGRES_DATABASE r) ''HOST'' tv)) \<and>
   (\<forall>i<length ts.
      snd (migrate_all r w tv) ! Suc i
        = (tenant_label (ts ! i),
           snd (migrate_database r (after_tenants r tv w1 (take i ts)) (Some (snd (ts ! i)))
                  (tenant_label (ts ! i)) tv))) \<and>
   (\<forall>i<length ts.
      target_database r (POSTGRES_DATABASE r) \<noteq> tenant_key r (ts ! i) \<and>
      (\<forall>j<i. tenant_key r (ts ! j) \<noteq> tenant_key r (ts ! i)) \<longrightarrow>
      snd (migrate_all r w tv) ! Suc i
        = (tenant_label (ts ! i),
           snd (migrate_database r w (Some (snd (ts ! i))) (tenant_label (ts ! i)) tv))) \<and>
   (migrate_database r u a la tv = (u1, ok1, evs1) \<and>
    target_database r a \<noteq> target_database r b \<longrightarrow>
      snd (migrate_database r u1 b lb tv) = snd (migrate_database r u b lb tv) \<and>
      fst (migrate_database r u1 b lb tv) (target_database r b)
        = fst (migrate_database r u b lb tv) (target_database r b))"
proof -
  have p1: "migrate_pending r db_name c (m # ms)
        = (close c1, Inr False, [Failed (version m) (name m) e])"
    if "scope_skip r db_name m = Inr False" "\<not> dry_run r"
       "apply_migration r c m ''up'' = (c1, Inl e)"
    using that by simp
  have p2: "\<exists>pre x post e. pending = pre @ x # post \<and>
         evs = map (\<lambda>y. Applied (version y) (name y))
                 (filter (\<lambda>y. scope_skip r db_name y = Inr False) pre)
               @ [Failed (version x) (name x) e]"
    if "migrate_pending r db_name c pending = (c', Inr False, evs)"
    using migrate_pending_failed[OF that] by blast
  have p2': "snd (migrate_database r u0 db0 label0 tv0)
        = (False, MigrateHeader label0 (version_of d0) (version (last pending0)) # evs0)"
    if h: "u0 (target_database r db0) = Some d0"
          "pending0 = pending_migrations (version_of d0) tv0 (discover_migrations r None)"
          "migrate_pending r db0 (versioned_connection d0) pending0 = (c0, Inr False, evs0)"
  proof -
    have "pending0 \<noteq> []" using h(3) by auto
    then show ?thesis using h
      by (simp add: migrate_database_eq migrate_connection_eq Let_def)
  qed
  have rep: "snd (migrate_all r w tv) =
      (''HOST'', snd (migrate_database r w (POSTGRES_DATABASE r) ''HOST'' tv))
        # snd (migrate_tenants r w1 ts tv)"
    using assms by (simp add: migrate_all_eq)
  have p3: "length (snd (migrate_all r w tv)) = Suc (length ts)"
    using rep by (simp add: migrate_tenants_length)
  have p4: "snd (migrate_all r w tv) ! 0
     = (''HOST'', snd (migrate_database r w (POSTGRES_DATABASE r) ''HOST'' tv))"
    using rep by simp
  have p5: "snd (migrate_all r w tv) ! Suc i
        = (tenant_label (ts ! i),
           snd (migrate_database r (after_tenants r tv w1 (take i ts)) (Some (snd (ts ! i)))
                  (tenant_label (ts ! i)) tv))"
    if "i < length ts" for i
    using rep migrate_tenants_nth[OF that, of r w1 tv] by simp
  have p6: "snd (migrate_all r w tv) ! Suc i
        = (tenant_label (ts ! i),
           snd (migrate_database r w (Some (snd (ts ! i))) (tenant_label (ts ! i)) tv))"
    if i: "i < length ts"
      and host: "target_database r (POSTGRES_DATABASE r) \<noteq> tenant_key r (ts ! i)"
      and earlier: "\<forall>j<i. tenant_key r (ts ! j) \<noteq> tenant_key r (ts ! i)"
    for i
  proof -
    let ?k = "tenant_key r (ts ! i)"
    obtain ok0 evs0 where h: "migrate_database r w (POSTGRES_DATABASE r) ''HOST'' tv = (w1, ok0, evs0)"
      using assms(1) by (cases "migrate_database r w (POSTGRES_DATABASE r) ''HOST'' tv") simp
    have a: "w1 ?k = w ?k"
      using migrate_database_frame[OF h, of ?k] host by simp
    have "\<forall>t\<in>set (take i ts). tenant_key r t \<noteq> ?k"
    proof
      fix t assume "t \<in> set (take i ts)"
      then obtain j where "j < length (take i ts)" "take i ts ! j = t"
        by (auto simp: in_set_conv_nth)
      then have "j < i" "ts ! j = t" using i by simp_all
      then show "tenant_key r t \<noteq> ?k" using earlier by auto
    qed
    then have "after_tenants r tv w1 (take i ts) ?k = w1 ?k"
      by (rule after_tenants_frame)
    then have eq: "after_tenants r tv w1 (take i ts) (target_database r (Some (snd (ts ! i))))
                 = w (target_database r (Some (snd (ts ! i))))"
      using a by (simp add: tenant_key_def)
    have "snd (migrate_database r (after_tenants r tv w1 (take i ts)) (Some (snd (ts ! i)))
                 (tenant_label (ts ! i)) tv)
            = snd (migrate_database r w (Some (snd (ts ! i))) (tenant_label (ts ! i)) tv) \<and>
          fst (migrate_database r (after_tenants r tv w1 (take i ts)) (Some (snd (ts ! i)))
                 (tenant_label (ts ! i)) tv) (target_database r (Some (snd (ts ! i))))
            = fst (migrate_database r w (Some (snd (ts ! i))) (tenant_label (ts ! i)) tv)
                (target_database r (Some (snd (ts ! i))))"
      by (rule migrate_database_local) (fact eq)
    then show ?thesis using p5[OF i] by simp
  qed
  have p7: "snd (migrate_database r u1 b lb tv) = snd (migrate_database r u b lb tv) \<and>
      fst (migrate_database r u1 b lb tv) (target_database r b)
        = fst (migrate_database r u b lb tv) (target_database r b)"
    if h: "migrate_database r u a la tv = (u1, ok1, evs1)"
          "target_database r a \<noteq> target_database r b"
  proof -
    have "u1 (target_database r b) = u (target_database r b)"
      using migrate_database_frame[OF h(1), of "target_database r b"] h(2) by simp
    then show ?thesis by (rule migrate_database_local)
  qed
  show ?thesis using p1 p2 p2' p3 p4 p5 p6 p7 by blast
qed

theorem failure_is_contained_witness:
  "snd (migrate_all failing_runner two_tenants None)
     = [(''HOST'', False,
          [MigrateHeader ''HOST'' 0 3, Failed 1 ''bad'' (MigrationFailed SqlError)]),
        (''TENANT 7'', False,
          [MigrateHeader ''TENANT 7'' 0 3, Failed 3 ''ok'' (MigrationFailed SqlError)]),
        (''TENANT 8'', True, [MigrateHeader ''TENANT 8'' 0 3, Applied 3 ''ok''])]
   \<and> snd (migrate_all failing_runner two_tenants None) ! Suc 1
       = (''TENANT 8'',
          snd (migrate_database failing_runner two_tenants (Some ''tenant_beta'') ''TENANT 8'' None))"
proof -
  let ?w1 = "fst (migrate_database failing_runner two_tenants (POSTGRES_DATABASE failing_runner)
                    ''HOST'' None)"
  let ?ts = "[(''7'', ''tenant_acme''), (''8'', ''tenant_beta'')]"
  have a: "snd (migrate_all failing_runner two_tenants None)
     = [(''HOST'', False,
          [MigrateHeader ''HOST'' 0 3, Failed 1 ''bad'' (MigrationFailed SqlError)]),
        (''TENANT 7'', False,
          [MigrateHeader ''TENANT 7'' 0 3, Failed 3 ''ok'' (MigrationFailed SqlError)]),
        (''TENANT 8'', True, [MigrateHeader ''TENANT 8'' 0 3, Applied 3 ''ok''])]"
    by code_simp
  have ts: "?ts = tenant_directory failing_runner ?w1"
    by (simp add: failing_runner_def demo_runner_def)
  note t = failure_is_contained[OF refl ts,
      THEN conjunct2, THEN conjunct2, THEN conjunct2, THEN conjunct2, THEN conjunct2,
      THEN conjunct2, THEN conjunct1, rule_format, of 1]
  have "snd (migrate_all failing_runner two_tenants None) ! Suc 1
       = (tenant_label (?ts ! 1),
          snd (migrate_database failing_runner two_tenants (Some (snd (?ts ! 1)))
                 (tenant_label (?ts ! 1)) None))"
    by (rule t)
      (simp_all add: tenant_key_def target_database_def failing_runner_def demo_runner_def)
  then show ?thesis using a by (simp add: tenant_label_def)
qed

subsection \<open>Running twice\<close>

lemma ensured_idem [simp]: "ensured (ensured d) = ensured d"
  by (simp add: ensured_def split: option.splits)

lemma version_of_ensured [simp]: "version_of (ensured d) = version_of d"
  by (simp add: ensured_def version_of_def split: option.splits)

lemma versioned_ensured [simp]: "versioned_connection (ensured d) = versioned_connection d"
  by (simp add: versioned_connection_def)

lemma committed_versioned [simp]: "committed (versioned_connection d) = ensured d"
  by (simp add: versioned_connection_def connection_to_def)

lemma settled_versioned: "select_granted (ensured d) \<Longrightarrow> settled (versioned_connection d)"
  by (simp add: settled_def versioned_connection_def connection_to_def ensured_def
      split: option.splits)

lemma aborted_versioned:
  "\<not> select_granted (ensured d) \<Longrightarrow> failed (versioned_connection d) \<and> version_of d = 0"
  by (auto simp: versioned_connection_def connection_to_def ensured_def version_of_def
      split: option.splits)

lemma settled_connection:
  "settled c \<Longrightarrow> c = versioned_connection (committed c) \<and> ensured (committed c) = committed c
     \<and> select_granted (committed c)"
  by (auto simp: settled_def connection_to_def versioned_connection_def ensured_def
      split: option.splits)

lemma version_of_rows:
  "select_granted d \<Longrightarrow>
     version_of d = (if up_versions (table_rows d) = [] then 0
                     else Max (set (up_versions (table_rows d))))"
  by (simp add: version_of_def table_rows_def split: option.splits)

lemma committed_close [simp]: "committed (close c) = committed c"
  by (simp add: close_def)

lemma pending_version: "m \<in> set (pending_migrations v tv ms) \<Longrightarrow> v < version m"
  by (auto simp: pending_migrations_eq)

lemma pending_mono:
  "v \<le> v' \<Longrightarrow> m \<in> set (pending_migrations v' tv ms) \<Longrightarrow> m \<in> set (pending_migrations v tv ms)"
  by (auto simp: pending_migrations_eq)

text \<open>The first run, seen from its loop.\<close>

lemma first_run:
  assumes "migrate_database r w db_name db_label tv = (w1, True, evs1)"
  shows "\<exists>d c3 evs.
           w (target_database r db_name) = Some d \<and>
           migrate_pending r db_name (versioned_connection d)
             (pending_migrations (version_of d) tv (discover_migrations r None))
             = (c3, Inr True, evs) \<and>
           w1 = w(target_database r db_name \<mapsto> committed c3)"
proof -
  obtain d where d: "w (target_database r db_name) = Some d"
    using assms by (auto simp: migrate_database_eq split: option.splits)
  let ?c = "versioned_connection d"
  let ?P = "pending_migrations (version_of d) tv (discover_migrations r None)"
  show ?thesis
  proof (cases "?P = []")
    case True
    then have "w1 = w(target_database r db_name \<mapsto> committed ?c)"
      using assms d by (simp add: migrate_database_eq migrate_connection_eq Let_def)
    moreover have "migrate_pending r db_name ?c ?P = (?c, Inr True, [])" using True by simp
    ultimately show ?thesis using d by blast
  next
    case False
    obtain c3 res evs where p: "migrate_pending r db_name ?c ?P = (c3, res, evs)"
      by (cases "migrate_pending r db_name ?c ?P")
    have "res = Inr True \<and> w1 = w(target_database r db_name \<mapsto> committed c3)"
      using assms d False p
      by (auto simp: migrate_database_eq migrate_connection_eq Let_def
          split: sum.splits bool.splits)
    then show ?thesis using d p by blast
  qed
qed

text \<open>A run whose pending migrations are all skipped, or that only previews.\<close>

lemma quiet_run:
  assumes "w (target_database r db_name) = Some d" and "ensured d = d"
    and "migrate_pending r db_name (versioned_connection d)
           (pending_migrations (version_of d) tv (discover_migrations r None))
           = (versioned_connection d, Inr True, evs)"
    and "attempts evs = []"
    and "migrate_database r w db_name db_label tv = (w2, ok2, evs2)"
  shows "w2 = w \<and> ok2 \<and> attempts evs2 = [] \<and>
         (evs2 = [UpToDate db_label (version_of d)])
           = (pending_migrations (version_of d) tv (discover_migrations r None) = [])"
proof -
  let ?P = "pending_migrations (version_of d) tv (discover_migrations r None)"
  have mc: "migrate_connection r db_name db_label tv (connection_to d) =
      (if ?P = [] then (close (versioned_connection d), True, [UpToDate db_label (version_of d)])
       else (close (versioned_connection d), True,
             MigrateHeader db_label (version_of d) (version (last ?P)) # evs))"
    using assms(3) by (simp add: migrate_connection_eq Let_def)
  have cc: "committed (close (versioned_connection d)) = d"
    using assms(2) by (simp add: close_def)
  have res: "(w2, ok2, evs2) =
      (if ?P = [] then (w, True, [UpToDate db_label (version_of d)])
       else (w, True, MigrateHeader db_label (version_of d) (version (last ?P)) # evs))"
    using assms(1,5) mc cc by (simp add: migrate_database_eq map_upd_triv split: if_splits)
  show ?thesis using res assms(4) by (auto split: if_splits)
qed

lemma version_after_run:
  assumes "set U0 \<subseteq> set U1" and "set U1 \<subseteq> set U0 \<union> version ` set P"
    and "\<forall>m\<in>set P. v0 < version m"
    and "v0 = (if U0 = [] then 0 else Max (set U0))"
    and "v1 = (if U1 = [] then 0 else Max (set U1))"
  shows "v0 \<le> (v1::int)"
proof (cases "U0 = []")
  case False
  then have "U1 \<noteq> []" using assms(1) by auto
  moreover have "Max (set U0) \<le> Max (set U1)"
    using assms(1) False by (intro Max_mono) auto
  ultimately show ?thesis using assms(4,5) False by simp
next
  case True
  show ?thesis
  proof (cases "U1 = []")
    case True
    then show ?thesis using assms(4,5) \<open>U0 = []\<close> by simp
  next
    case False
    then have "Max (set U1) \<in> set U1" by (intro Max_in) auto
    then have "Max (set U1) \<in> version ` set P" using assms(2) True by auto
    then have "v0 < Max (set U1)" using assms(3) by auto
    then show ?thesis using assms(5) False by simp
  qed
qed

text \<open>
  C8, as the code has it.  When a call of \<^verbatim>\<open>migrate_database\<close> has returned \<^verbatim>\<open>True\<close>, a
  second call on the same database with the same files and the same target writes
  nothing: the world is unchanged, it returns \<^verbatim>\<open>True\<close>, and it attempts no migration.  It
  reports that the database is up to date exactly when no discovered migration within
  the target is above the current version; the migrations that the first run skipped
  for their scope and that lie above the current version stay pending, and then the
  second run prints its header and skips them again.
\<close>

theorem second_run_writes_nothing:
  assumes "migrate_database r w db_name db_label tv = (w1, True, evs1)"
    and "migrate_database r w1 db_name db_label tv = (w2, ok2, evs2)"
    and "w1 (target_database r db_name) = Some d1"
  shows "w2 = w1 \<and> ok2 \<and> attempts evs2 = [] \<and>
         (evs2 = [UpToDate db_label (version_of d1)])
           = (pending_migrations (version_of d1) tv (discover_migrations r None) = [])"
proof -
  let ?D = "discover_migrations r None"
  from first_run[OF assms(1)] obtain d c3 evs where
    h: "w (target_database r db_name) = Some d"
       "migrate_pending r db_name (versioned_connection d)
          (pending_migrations (version_of d) tv ?D) = (c3, Inr True, evs)"
       "w1 = w(target_database r db_name \<mapsto> committed c3)"
    by blast
  have d1: "d1 = committed c3" using h(3) assms(3) by simp
  have same: ?thesis if c3: "c3 = versioned_connection d" and ev: "attempts evs = []"
  proof -
    have e: "d1 = ensured d" using d1 c3 by simp
    have l: "migrate_pending r db_name (versioned_connection d1)
           (pending_migrations (version_of d1) tv ?D) = (versioned_connection d1, Inr True, evs)"
      using h(2) c3 e by simp
    show ?thesis by (rule quiet_run[OF assms(3) _ l ev assms(2)]) (simp add: e)
  qed
  show ?thesis
  proof (cases "dry_run r")
    case True
    from migrate_pending_dry[OF True h(2)] show ?thesis by (intro same) simp_all
  next
    case False
    show ?thesis
    proof (cases "select_granted (ensured d)")
      case denied: False
      from migrate_pending_aborted[OF aborted_versioned[OF denied, THEN conjunct1] False h(2)]
      show ?thesis by (intro same) simp_all
    next
      case True
      let ?P = "pending_migrations (version_of d) tv ?D"
      note inv = migrate_pending_done[OF h(2) False settled_versioned[OF True]]
      have s3: "settled c3" using inv by simp
      have c3: "c3 = versioned_connection d1" and e: "ensured d1 = d1" and g1: "select_granted d1"
        using settled_connection[OF s3] d1 by simp_all
      let ?U0 = "up_versions (table_rows (ensured d))"
      let ?U1 = "up_versions (table_rows d1)"
      have sub: "set ?U0 \<subseteq> set ?U1" "set ?U1 \<subseteq> set ?U0 \<union> version ` set ?P"
        using inv d1 by simp_all
      have app: "\<forall>m\<in>set ?P. scope_skip r db_name m = Inr True \<or> version m \<in> set ?U1"
        using inv d1 by simp
      have v0: "version_of d = (if ?U0 = [] then 0 else Max (set ?U0))"
        using version_of_rows[OF True] by simp
      have v1: "version_of d1 = (if ?U1 = [] then 0 else Max (set ?U1))"
        by (rule version_of_rows[OF g1])
      have above: "\<forall>m\<in>set ?P. version_of d < version m"
        using pending_version by blast
      have le: "version_of d \<le> version_of d1"
        by (rule version_after_run[OF sub above v0 v1])
      have skipped: "\<forall>m\<in>set (pending_migrations (version_of d1) tv ?D).
                       scope_skip r db_name m = Inr True"
      proof
        fix m assume m: "m \<in> set (pending_migrations (version_of d1) tv ?D)"
        then have "m \<in> set ?P" using pending_mono[OF le] by blast
        moreover have "version m \<notin> set ?U1"
        proof
          assume i: "version m \<in> set ?U1"
          then have "?U1 \<noteq> []" by auto
          moreover have "version m \<le> Max (set ?U1)" using i by (intro Max_ge) auto
          ultimately have "version m \<le> version_of d1" using v1 by simp
          then show False using pending_version[OF m] by simp
        qed
        ultimately show "scope_skip r db_name m = Inr True" using app by blast
      qed
      have l: "migrate_pending r db_name (versioned_connection d1)
             (pending_migrations (version_of d1) tv ?D) = (versioned_connection d1, Inr True, [])"
        by (rule migrate_pending_all_skipped[OF skipped])
      show ?thesis by (rule quiet_run[OF assms(3) e l _ assms(2)]) simp
    qed
  qed
qed

text \<open>
  The host database with \<^verbatim>\<open>host/001_init.sql\<close> and \<^verbatim>\<open>tenant/002_add_col.sql\<close>: the first
  run applies version 1, and the second run does not report an up-to-date database; it
  announces the way from version 1 to version 2 and skips the tenant migration.
\<close>

theorem second_run_header_counterexample:
  "snd (migrate_database demo_runner demo_world (Some ''app'') ''HOST'' None)
     = (True, [MigrateHeader ''HOST'' 0 2, Applied 1 ''init''])
   \<and> snd (migrate_database demo_runner
            (fst (migrate_database demo_runner demo_world (Some ''app'') ''HOST'' None))
            (Some ''app'') ''HOST'' None)
     = (True, [MigrateHeader ''HOST'' 1 2])"
  by code_simp

theorem second_run_writes_nothing_witness:
  "snd (migrate_database demo_runner demo_world (Some ''tenant_acme'') ''TENANT 7'' None)
     = (True, [MigrateHeader ''TENANT 7'' 0 2, Applied 2 ''add_col''])
   \<and> migrate_database demo_runner
        (fst (migrate_database demo_runner demo_world (Some ''tenant_acme'') ''TENANT 7'' None))
        (Some ''tenant_acme'') ''TENANT 7'' None
     = (fst (migrate_database demo_runner demo_world (Some ''tenant_acme'') ''TENANT 7'' None),
        True, [UpToDate ''TENANT 7'' 2])"
proof -
  let ?w1 = "fst (migrate_database demo_runner demo_world (Some ''tenant_acme'') ''TENANT 7'' None)"
  let ?d1 = "\<lparr> user_schema = [''ALTER TABLE u ADD c int;''],
               migration_versions = Some [tracking_row demo_runner add_col_migration ''up''],
               select_granted = True \<rparr>"
  have a: "snd (migrate_database demo_runner demo_world (Some ''tenant_acme'') ''TENANT 7'' None)
     = (True, [MigrateHeader ''TENANT 7'' 0 2, Applied 2 ''add_col''])"
    by code_simp
  then have h1: "migrate_database demo_runner demo_world (Some ''tenant_acme'') ''TENANT 7'' None
     = (?w1, True, [MigrateHeader ''TENANT 7'' 0 2, Applied 2 ''add_col''])"
    by (simp add: prod_eq_iff)
  have b: "snd (migrate_database demo_runner ?w1 (Some ''tenant_acme'') ''TENANT 7'' None)
     = (True, [UpToDate ''TENANT 7'' 2])"
    by code_simp
  then have h2: "migrate_database demo_runner ?w1 (Some ''tenant_acme'') ''TENANT 7'' None
     = (fst (migrate_database demo_runner ?w1 (Some ''tenant_acme'') ''TENANT 7'' None),
        True, [UpToDate ''TENANT 7'' 2])"
    by (simp add: prod_eq_iff)
  have h3: "?w1 (target_database demo_runner (Some ''tenant_acme'')) = Some ?d1"
    by code_simp
  from second_run_writes_nothing[OF h1 h2 h3] a b show ?thesis
    by (simp add: prod_eq_iff)
qed

end
